theory Spec2Isabelle
  imports Complex_Main "HOL-Library.Log_Nat"
begin

section \<open>Discount codes of the SAUWA booking site\<close>

text \<open>
  The development embeds the discount store (\<^verbatim>\<open>stores/discountStore.ts\<close>), the validation
  client (\<^verbatim>\<open>lib/graphql/queries/validateDiscountCode.ts\<close>) and the error types
  (\<^verbatim>\<open>types/discount-errors.ts\<close>), in their WDA-1023 versions; of the older version of the
  validation client it keeps the error classifier.

  A JavaScript \<^verbatim>\<open>number\<close> is a double, modelled as the rational it denotes, and the
  arithmetic of the source is double arithmetic: each operation rounds to the nearest
  double. \<^verbatim>\<open>NaN\<close>, the infinities, the sign of zero and overflow are outside the model.
  A point in time (\<^verbatim>\<open>new Date()\<close>) is its time value, the milliseconds since the epoch.
\<close>

subsection \<open>Data model\<close>

type_synonym number = rat

datatype DiscountType = Percentage | Fixed

datatype DiscountStatus = Active | Inactive | Expired

text \<open>
  The record under \<^verbatim>\<open>discountCode\<close> in the older version of \<^verbatim>\<open>validateDiscountCode.ts\<close>
  (WDA-1021), which the newer one replaces.
\<close>

record LegacyDiscountCode =
  code :: string
  percentage :: number
  validUntil :: string
  usageLimit :: number
  usageCount :: number
  isActive :: bool

text \<open>
  The answer of the backend (\<^verbatim>\<open>ValidateDiscountResponse\<close>): the record under
  \<^verbatim>\<open>discountCode\<close>, then the object under \<^verbatim>\<open>sauwaValidateDiscountCode\<close>. Their fields share
  names with the records that follow and are read with qualified names.
\<close>

record ResponseDiscountCode =
  id :: number
  code :: string
  name :: string
  discountType :: DiscountType
  discountValue :: number
  maxUses :: "number option"
  currentUses :: number
  validFrom :: "string option"
  validUntil :: "string option"
  status :: DiscountStatus

record ValidateDiscountResponse =
  valid :: bool
  reason :: string
  calculatedDiscount :: "number option"
  finalPriceCents :: "number option"
  discountCode :: "ResponseDiscountCode option"

text \<open>The interface \<^verbatim>\<open>Discount\<close> of \<^verbatim>\<open>types/discount.ts\<close> (WDA-1023).\<close>

record Discount =
  code :: string
  type :: DiscountType
  amount :: number
  validUntil :: "string option"
  maxUses :: "number option"
  currentUses :: number
  status :: DiscountStatus

datatype DiscountState = Idle | Validating | Valid | Error

text \<open>
  \<^verbatim>\<open>DiscountErrorType\<close> is declared twice, as two unions of string literals:
  \<^verbatim>\<open>validateDiscountCode.ts\<close> has \<^verbatim>\<open>UNKNOWN_ERROR\<close>, \<^verbatim>\<open>types/discount-errors.ts\<close> has
  \<^verbatim>\<open>ALREADY_USED\<close> and \<^verbatim>\<open>VALIDATION_ERROR\<close>. The datatype has every literal of either.
\<close>

datatype DiscountErrorType =
    INVALID_CODE
  | INACTIVE
  | EXPIRED
  | NO_USES_LEFT
  | NETWORK_ERROR
  | UNKNOWN_ERROR
  | ALREADY_USED
  | VALIDATION_ERROR

text \<open>\<^verbatim>\<open>ValidateDiscountResult\<close>: an optional field that is absent is \<open>None\<close>.\<close>

record ValidateDiscountResult =
  valid :: bool
  discount :: "Discount option"
  calculatedDiscount :: "number option"
  finalPriceCents :: "number option"
  message :: "string option"
  error :: "DiscountErrorType option"

record DiscountCalculation =
  originalPrice :: number
  discountAmount :: number
  finalPrice :: number
  percentage :: number

text \<open>The four atoms of the store, as one state.\<close>

record store =
  discountCode :: string
  discountState :: DiscountState
  appliedDiscount :: "Discount option"
  discountError :: "DiscountErrorType option"

subsection \<open>Numbers\<close>

text \<open>
  The value of every arithmetic operator of the source is rounded to the nearest double,
  a tie to the even significand. \<open>expo x\<close> is the exponent \<open>e\<close> with \<open>2 ^ e \<le> x < 2 ^ (e + 1)\<close>
  of a positive \<open>x\<close>, \<open>fl\<close> the rounding; a double has 53 significant bits, and the
  subnormal numbers begin below the exponent \<open>- 1022\<close>.
\<close>

definition round_even :: "rat \<Rightarrow> int" where
  "round_even y =
     (let f = \<lfloor>y\<rfloor>; r = y - of_int f
      in if r < 1 / 2 then f else if r > 1 / 2 then f + 1 else if even f then f else f + 1)"

definition pow2 :: "int \<Rightarrow> rat" where
  "pow2 e = (if e \<ge> 0 then 2 ^ nat e else 1 / 2 ^ nat (- e))"

definition expo :: "rat \<Rightarrow> int" where
  "expo x = (if x \<ge> 1 then bitlen \<lfloor>x\<rfloor> - 1 else - bitlen (\<lceil>1 / x\<rceil> - 1))"

definition fl :: "rat \<Rightarrow> number" where
  "fl x =
     (if x = 0 then 0
      else let q = pow2 (max (expo \<bar>x\<bar>) (- 1022) - 52)
           in of_int (round_even (x / q)) * q)"

text \<open>The operators \<^verbatim>\<open>*\<close>, \<^verbatim>\<open>/\<close>, \<^verbatim>\<open>-\<close> and \<^verbatim>\<open>+\<close> on numbers.\<close>

definition fmul :: "number \<Rightarrow> number \<Rightarrow> number" where
  "fmul a b = fl (a * b)"

definition fdiv :: "number \<Rightarrow> number \<Rightarrow> number" where
  "fdiv a b = fl (a / b)"

definition fsub :: "number \<Rightarrow> number \<Rightarrow> number" where
  "fsub a b = fl (a - b)"

definition fadd :: "number \<Rightarrow> number \<Rightarrow> number" where
  "fadd a b = fl (a + b)"

subsection \<open>Built-ins of the platform\<close>

text \<open>
  \<^verbatim>\<open>Math.round\<close> rounds to the nearest integer, a tie towards plus infinity; of a double
  it is a double again.
\<close>

definition Math_round :: "number \<Rightarrow> number" where
  "Math_round x = of_int \<lfloor>x + 1 / 2\<rfloor>"

definition Math_min :: "number \<Rightarrow> number \<Rightarrow> number" where
  "Math_min a b = (if a < b then a else b)"

subsection \<open>Derived reads\<close>

text \<open>The applied discount, \<^verbatim>\<open>discount\<close> in the source, is \<open>d\<close> here.\<close>

definition isDiscountApplied :: "store \<Rightarrow> bool" where
  "isDiscountApplied s = (appliedDiscount s \<noteq> None)"

definition discountPercentage :: "store \<Rightarrow> number" where
  "discountPercentage s =
     (case appliedDiscount s of
        None \<Rightarrow> 0
      | Some d \<Rightarrow> if type d = Percentage then amount d else 0)"

definition remainingUses :: "store \<Rightarrow> number option" where
  "remainingUses s =
     (case appliedDiscount s of
        None \<Rightarrow> None
      | Some d \<Rightarrow>
          (case maxUses d of
             None \<Rightarrow> None
           | Some cap \<Rightarrow> if cap = 0 then None else Some (fsub cap (currentUses d))))"

definition isOneTimeUse :: "store \<Rightarrow> bool" where
  "isOneTimeUse s =
     (case appliedDiscount s of None \<Rightarrow> False | Some d \<Rightarrow> maxUses d = Some 1)"

subsection \<open>Error types\<close>

definition isRecoverableError :: "DiscountErrorType \<Rightarrow> bool" where
  "isRecoverableError errorType = (errorType = INVALID_CODE \<or> errorType = NETWORK_ERROR)"

subsection \<open>Strings\<close>

text \<open>
  A string is the list of its code units. The built-ins \<^verbatim>\<open>String.prototype.trim\<close> and
  \<^verbatim>\<open>String.prototype.toUpperCase\<close> are parameters of the definitions that call them,
  \<open>trim\<close> and \<open>toUpperCase\<close>.
\<close>

definition sanitizeCode :: "(string \<Rightarrow> string) \<Rightarrow> (string \<Rightarrow> string) \<Rightarrow> string \<Rightarrow> string" where
  "sanitizeCode trim toUpperCase raw = toUpperCase (trim raw)"

subsection \<open>Expiry and price calculation\<close>

text \<open>
  \<^verbatim>\<open>new Date(text)\<close> is a parameter, \<open>Date_parse\<close>: the time value of the text, or \<open>None\<close>
  for an invalid date, whose comparisons are all false. \<open>now\<close> is the time value of
  \<^verbatim>\<open>new Date()\<close>. A string is falsy when it is empty.
\<close>

definition isDiscountExpired :: "(string \<Rightarrow> int option) \<Rightarrow> int \<Rightarrow> Discount \<Rightarrow> bool" where
  "isDiscountExpired Date_parse now d =
     (if status d = Expired \<or> status d = Inactive then True
      else case validUntil d of
             None \<Rightarrow> False
           | Some text \<Rightarrow>
               if text = [] then False
               else (case Date_parse text of None \<Rightarrow> False | Some expirationDate \<Rightarrow> now > expirationDate))"

text \<open>The callback of the computed store \<^verbatim>\<open>calculateDiscountAmount(sessionPrice)\<close>.\<close>

definition calculateDiscountAmount :: "number \<Rightarrow> Discount option \<Rightarrow> DiscountCalculation" where
  "calculateDiscountAmount sessionPrice applied =
     (case applied of
        None \<Rightarrow>
          \<lparr>originalPrice = sessionPrice, discountAmount = 0,
           finalPrice = sessionPrice, percentage = 0\<rparr>
      | Some d \<Rightarrow>
          let amt = (if type d = Percentage
                     then fdiv (Math_round (fmul (fdiv (fmul sessionPrice (amount d)) 100) 100)) 100
                     else Math_min (amount d) sessionPrice);
              pct = (if type d = Percentage then amount d
                     else if sessionPrice > 0 then Math_round (fmul (fdiv amt sessionPrice) 100)
                     else 0)
          in \<lparr>originalPrice = sessionPrice, discountAmount = amt,
              finalPrice = fdiv (Math_round (fmul (fsub sessionPrice amt) 100)) 100,
              percentage = pct\<rparr>)"

text \<open>\<^verbatim>\<open>getDiscountCalculation\<close> reads the applied discount from the store.\<close>

definition getDiscountCalculation :: "store \<Rightarrow> number \<Rightarrow> DiscountCalculation" where
  "getDiscountCalculation s sessionPrice =
     (case appliedDiscount s of
        None \<Rightarrow>
          \<lparr>originalPrice = sessionPrice, discountAmount = 0,
           finalPrice = sessionPrice, percentage = 0\<rparr>
      | Some d \<Rightarrow>
          let amt = (if type d = Percentage
                     then fdiv (Math_round (fmul (fdiv (fmul sessionPrice (amount d)) 100) 100)) 100
                     else Math_min (amount d) sessionPrice);
              pct = (if type d = Percentage then amount d
                     else if sessionPrice > 0 then Math_round (fmul (fdiv amt sessionPrice) 100)
                     else 0)
          in \<lparr>originalPrice = sessionPrice, discountAmount = amt,
              finalPrice = fdiv (Math_round (fmul (fsub sessionPrice amt) 100)) 100,
              percentage = pct\<rparr>)"

subsection \<open>Actions of the store\<close>

definition initial :: store where
  "initial = \<lparr>discountCode = [], discountState = Idle, appliedDiscount = None, discountError = None\<rparr>"

definition setDiscountCode ::
  "(string \<Rightarrow> string) \<Rightarrow> (string \<Rightarrow> string) \<Rightarrow> string \<Rightarrow> store \<Rightarrow> store" where
  "setDiscountCode trim toUpperCase raw s =
     (let s1 = s\<lparr>discountCode := sanitizeCode trim toUpperCase raw\<rparr>
      in if discountError s1 \<noteq> None
         then s1\<lparr>discountError := None, discountState := Idle\<rparr>
         else s1)"

definition setValidating :: "store \<Rightarrow> store" where
  "setValidating s = s\<lparr>discountState := Validating, discountError := None\<rparr>"

definition setValid :: "Discount \<Rightarrow> store \<Rightarrow> store" where
  "setValid d s =
     s\<lparr>appliedDiscount := Some d, discountState := Valid, discountError := None, discountCode := []\<rparr>"

definition setError :: "DiscountErrorType \<Rightarrow> store \<Rightarrow> store" where
  "setError e s = s\<lparr>discountError := Some e, discountState := Error, appliedDiscount := None\<rparr>"

definition clearDiscount :: "store \<Rightarrow> store" where
  "clearDiscount s =
     s\<lparr>discountCode := [], discountState := Idle, appliedDiscount := None, discountError := None\<rparr>"

definition revalidateStoredDiscount :: "(string \<Rightarrow> int option) \<Rightarrow> int \<Rightarrow> store \<Rightarrow> store" where
  "revalidateStoredDiscount Date_parse now s =
     (case appliedDiscount s of
        None \<Rightarrow> s
      | Some stored \<Rightarrow> if isDiscountExpired Date_parse now stored then clearDiscount s else s)"

definition hasError :: "store \<Rightarrow> bool" where
  "hasError s = (discountState s = Error \<and> discountError s \<noteq> None)"

text \<open>
  A call of one of the six actions; \<^verbatim>\<open>revalidateStoredDiscount\<close> carries the time at which
  it runs. \<open>run\<close> performs a sequence of calls, the first one first.
\<close>

datatype action =
    SetDiscountCode string
  | SetValidating
  | SetValid Discount
  | SetError DiscountErrorType
  | ClearDiscount
  | RevalidateStoredDiscount int

fun perform ::
  "(string \<Rightarrow> string) \<Rightarrow> (string \<Rightarrow> string) \<Rightarrow> (string \<Rightarrow> int option)
     \<Rightarrow> store \<Rightarrow> action \<Rightarrow> store" where
  "perform trim toUpperCase Date_parse s (SetDiscountCode raw) = setDiscountCode trim toUpperCase raw s"
| "perform trim toUpperCase Date_parse s SetValidating = setValidating s"
| "perform trim toUpperCase Date_parse s (SetValid d) = setValid d s"
| "perform trim toUpperCase Date_parse s (SetError e) = setError e s"
| "perform trim toUpperCase Date_parse s ClearDiscount = clearDiscount s"
| "perform trim toUpperCase Date_parse s (RevalidateStoredDiscount now) =
     revalidateStoredDiscount Date_parse now s"

definition run ::
  "(string \<Rightarrow> string) \<Rightarrow> (string \<Rightarrow> string) \<Rightarrow> (string \<Rightarrow> int option)
     \<Rightarrow> store \<Rightarrow> action list \<Rightarrow> store" where
  "run trim toUpperCase Date_parse s acts = foldl (perform trim toUpperCase Date_parse) s acts"

subsection \<open>Validation client\<close>

text \<open>
  \<^verbatim>\<open>mapToErrorType(discountCode, reason)\<close>; the record is \<open>dc\<close>, and \<open>why\<close>, the reason, is
  not read.
\<close>

definition mapToErrorType ::
  "(string \<Rightarrow> int option) \<Rightarrow> int \<Rightarrow> ResponseDiscountCode option \<Rightarrow> string \<Rightarrow> DiscountErrorType" where
  "mapToErrorType Date_parse now dc why =
     (case dc of
        None \<Rightarrow> INVALID_CODE
      | Some c \<Rightarrow>
          if ResponseDiscountCode.status c = Inactive then INACTIVE
          else if ResponseDiscountCode.status c = Expired then EXPIRED
          else if (case ResponseDiscountCode.validUntil c of
                     None \<Rightarrow> False
                   | Some text \<Rightarrow>
                       text \<noteq> [] \<and>
                       (case Date_parse text of
                          None \<Rightarrow> False
                        | Some validUntilDate \<Rightarrow> validUntilDate < now))
          then EXPIRED
          else if (case ResponseDiscountCode.maxUses c of
                     None \<Rightarrow> False
                   | Some cap \<Rightarrow> cap > 0 \<and> ResponseDiscountCode.currentUses c \<ge> cap)
          then NO_USES_LEFT
          else UNKNOWN_ERROR)"

text \<open>The older version of \<^verbatim>\<open>mapToErrorType\<close> (WDA-1021), on the older record.\<close>

definition mapToErrorType_legacy ::
  "(string \<Rightarrow> int option) \<Rightarrow> int \<Rightarrow> LegacyDiscountCode option \<Rightarrow> DiscountErrorType" where
  "mapToErrorType_legacy Date_parse now dc =
     (case dc of
        None \<Rightarrow> INVALID_CODE
      | Some c \<Rightarrow>
          if \<not> isActive c then INACTIVE
          else if LegacyDiscountCode.validUntil c \<noteq> [] \<and>
                  (case Date_parse (LegacyDiscountCode.validUntil c) of
                     None \<Rightarrow> False
                   | Some validUntilDate \<Rightarrow> validUntilDate < now)
          then EXPIRED
          else if usageLimit c > 0 \<and> usageCount c \<ge> usageLimit c then NO_USES_LEFT
          else UNKNOWN_ERROR)"

text \<open>
  A value thrown by \<^verbatim>\<open>graphqlQuery\<close>: an \<^verbatim>\<open>Error\<close> object with its name and message, or any
  other value.
\<close>

datatype thrown = ErrorObject string string | OtherValue

text \<open>The \<^verbatim>\<open>try\<close> block after the \<^verbatim>\<open>await\<close>, on the data of the answer.\<close>

definition onFulfilled ::
  "(string \<Rightarrow> int option) \<Rightarrow> int \<Rightarrow> ValidateDiscountResponse \<Rightarrow> ValidateDiscountResult" where
  "onFulfilled Date_parse now result =
     (let failed =
            \<lparr>valid = False, discount = None, calculatedDiscount = None, finalPriceCents = None,
             message = Some (reason result),
             error = Some (mapToErrorType Date_parse now
                             (ValidateDiscountResponse.discountCode result) (reason result))\<rparr>
      in case ValidateDiscountResponse.discountCode result of
           None \<Rightarrow> failed
         | Some c \<Rightarrow>
             if ValidateDiscountResponse.valid result
             then \<lparr>valid = True,
                   discount = Some \<lparr>code = ResponseDiscountCode.code c,
                                    type = discountType c,
                                    amount = discountValue c,
                                    validUntil = ResponseDiscountCode.validUntil c,
                                    maxUses = ResponseDiscountCode.maxUses c,
                                    currentUses = ResponseDiscountCode.currentUses c,
                                    status = ResponseDiscountCode.status c\<rparr>,
                   calculatedDiscount = ValidateDiscountResponse.calculatedDiscount result,
                   finalPriceCents = ValidateDiscountResponse.finalPriceCents result,
                   message = Some (reason result),
                   error = None\<rparr>
             else failed)"

text \<open>The \<^verbatim>\<open>catch\<close> block.\<close>

definition onRejected :: "thrown \<Rightarrow> ValidateDiscountResult" where
  "onRejected e =
     (case e of
        ErrorObject nm msg \<Rightarrow>
          if nm = ''AbortError''
          then \<lparr>valid = False, discount = None, calculatedDiscount = None, finalPriceCents = None,
                message = Some ''Request timeout'', error = Some NETWORK_ERROR\<rparr>
          else \<lparr>valid = False, discount = None, calculatedDiscount = None, finalPriceCents = None,
                message = Some msg, error = Some NETWORK_ERROR\<rparr>
      | OtherValue \<Rightarrow>
          \<lparr>valid = False, discount = None, calculatedDiscount = None, finalPriceCents = None,
           message = Some ''Unknown error'', error = Some NETWORK_ERROR\<rparr>)"

text \<open>
  One call of \<^verbatim>\<open>validateDiscountCode\<close> in the event loop. The call creates the
  \<^verbatim>\<open>AbortController\<close>, arms the timer of 5000 ms and hands \<^verbatim>\<open>graphqlQuery\<close> the query text and
  the variables, nothing else; \<^verbatim>\<open>graphqlQuery\<close> lies outside the embedded modules and is
  the environment here. Afterwards three things can happen: the timer fires and runs
  \<^verbatim>\<open>controller.abort()\<close>, the promise of \<^verbatim>\<open>graphqlQuery\<close> is fulfilled, or it is rejected.
  \<open>returned\<close> is what the promise of \<^verbatim>\<open>validateDiscountCode\<close> resolved to, \<open>None\<close> while
  it is pending.
\<close>

record call =
  aborted :: bool
  timer :: bool
  variables :: "string \<times> number"
  returned :: "ValidateDiscountResult option"

datatype event =
    TimerFires
  | QueryFulfilled ValidateDiscountResponse
  | QueryRejected thrown

definition validateDiscountCode ::
  "(string \<Rightarrow> string) \<Rightarrow> (string \<Rightarrow> string) \<Rightarrow> string \<Rightarrow> number \<Rightarrow> call" where
  "validateDiscountCode trim toUpperCase raw subtotalCents =
     \<lparr>aborted = False, timer = True,
      variables = (toUpperCase (trim raw), subtotalCents), returned = None\<rparr>"

fun step :: "(string \<Rightarrow> int option) \<Rightarrow> int \<Rightarrow> call \<Rightarrow> event \<Rightarrow> call" where
  "step Date_parse now c TimerFires =
     (if timer c then c\<lparr>aborted := True, timer := False\<rparr> else c)"
| "step Date_parse now c (QueryFulfilled data) =
     (if returned c = None
      then c\<lparr>timer := False, returned := Some (onFulfilled Date_parse now data)\<rparr>
      else c)"
| "step Date_parse now c (QueryRejected e) =
     (if returned c = None
      then c\<lparr>timer := False, returned := Some (onRejected e)\<rparr>
      else c)"

subsection \<open>Stored values\<close>

text \<open>
  What \<^verbatim>\<open>JSON.parse\<close> returns. The properties of an object are kept in the order in which
  they were first stored; an optional property that is absent is not in the list.
\<close>

datatype json =
    JNull
  | JBool bool
  | JNumber number
  | JString string
  | JArray "json list"
  | JObject "(string \<times> json) list"

subsection \<open>An instance of the string built-ins\<close>

text \<open>
  \<open>trim_ascii\<close> and \<open>toUpperCase_ascii\<close> are the instances used at concrete inputs. They are
  right on ASCII text: \<open>trim_ascii\<close> removes the ASCII white space and line terminators
  at both ends, \<open>toUpperCase_ascii\<close> maps the letters \<^verbatim>\<open>a\<close> to \<^verbatim>\<open>z\<close>. Beyond ASCII the
  built-ins do more (\<^verbatim>\<open>trim\<close> also strips the no-break space and the other Unicode spaces,
  \<^verbatim>\<open>toUpperCase\<close> also maps the other letters), which these instances do not follow.
\<close>

definition isWhiteSpace_ascii :: "char \<Rightarrow> bool" where
  "isWhiteSpace_ascii c = (of_char c \<in> {9, 10, 11, 12, 13, 32 :: nat})"

definition trim_ascii :: "string \<Rightarrow> string" where
  "trim_ascii str = rev (dropWhile isWhiteSpace_ascii (rev (dropWhile isWhiteSpace_ascii str)))"

definition toUpperCase_ascii_char :: "char \<Rightarrow> char" where
  "toUpperCase_ascii_char c =
     (let n = of_char c :: nat in if 97 \<le> n \<and> n \<le> 122 then char_of (n - 32) else c)"

definition toUpperCase_ascii :: "string \<Rightarrow> string" where
  "toUpperCase_ascii str = map toUpperCase_ascii_char str"

definition isLowerCase_ascii :: "char \<Rightarrow> bool" where
  "isLowerCase_ascii c = (let n = of_char c :: nat in 97 \<le> n \<and> n \<le> 122)"

subsection \<open>An instance of the JSON parser\<close>

text \<open>
  \<^verbatim>\<open>JSON.parse\<close> is a parameter of \<open>decode\<close> below. \<open>JSON_parse\<close> is the instance used at
  concrete inputs, with \<open>None\<close> for a syntax error. It follows the JSON grammar on ASCII
  text: white space, the literals \<^verbatim>\<open>true\<close>, \<^verbatim>\<open>false\<close> and \<^verbatim>\<open>null\<close>, numbers with fraction and
  exponent, strings with the two-character escapes, arrays and objects. An escape
  \<^verbatim>\<open>\uXXXX\<close> is not followed: the instance rejects it, which \<^verbatim>\<open>JSON.parse\<close> does not.
\<close>

definition is_digit :: "char \<Rightarrow> bool" where
  "is_digit c = (let n = of_char c :: nat in 48 \<le> n \<and> n \<le> 57)"

definition digit_val :: "char \<Rightarrow> nat" where
  "digit_val c = of_char c - 48"

definition digits_val :: "string \<Rightarrow> nat" where
  "digits_val ds = foldl (\<lambda>acc c. 10 * acc + digit_val c) 0 ds"

definition is_json_ws :: "char \<Rightarrow> bool" where
  "is_json_ws c = (of_char c \<in> {9, 10, 13, 32 :: nat})"

definition skip_ws :: "string \<Rightarrow> string" where
  "skip_ws str = dropWhile is_json_ws str"

definition unescape :: "char \<Rightarrow> char option" where
  "unescape c =
     (if c = CHR ''\"'' \<or> c = CHR 0x5C \<or> c = CHR ''/'' then Some c
      else if c = CHR ''b'' then Some (CHR 0x08)
      else if c = CHR ''f'' then Some (CHR 0x0C)
      else if c = CHR ''n'' then Some (CHR 0x0A)
      else if c = CHR ''r'' then Some (CHR 0x0D)
      else if c = CHR ''t'' then Some (CHR 0x09)
      else None)"

text \<open>The characters of a string up to its closing quote, and the rest of the text.\<close>

fun parse_chars :: "string \<Rightarrow> (string \<times> string) option" where
  "parse_chars [] = None"
| "parse_chars (c # cs) =
     (if c = CHR ''\"'' then Some ([], cs)
      else if c = CHR 0x5C then
        (case cs of
           [] \<Rightarrow> None
         | e # rest \<Rightarrow>
             (case unescape e of
                None \<Rightarrow> None
              | Some u \<Rightarrow>
                  (case parse_chars rest of
                     None \<Rightarrow> None
                   | Some (str, rest') \<Rightarrow> Some (u # str, rest'))))
      else if (of_char c :: nat) < 32 then None
      else (case parse_chars cs of
              None \<Rightarrow> None
            | Some (str, rest) \<Rightarrow> Some (c # str, rest)))"

text \<open>
  A number: an optional minus sign, the digits (no leading zero), an optional fraction and
  an optional exponent. Its value is the double nearest to the decimal.
\<close>

definition parse_frac :: "string \<Rightarrow> (rat \<times> string) option" where
  "parse_frac str =
     (case str of
        [] \<Rightarrow> Some (0, str)
      | c # cs \<Rightarrow>
          if c = CHR ''.''
          then (let ds = takeWhile is_digit cs
                in if ds = [] then None
                   else Some (of_nat (digits_val ds) / 10 ^ length ds, dropWhile is_digit cs))
          else Some (0, str))"

definition parse_exp :: "string \<Rightarrow> (int \<times> string) option" where
  "parse_exp str =
     (case str of
        [] \<Rightarrow> Some (0, str)
      | c # cs \<Rightarrow>
          if c = CHR ''e'' \<or> c = CHR ''E''
          then (let neg = (case cs of [] \<Rightarrow> False | d # _ \<Rightarrow> d = CHR ''-'');
                    signed = (case cs of [] \<Rightarrow> False | d # _ \<Rightarrow> d = CHR ''-'' \<or> d = CHR ''+'');
                    rest = (if signed then tl cs else cs);
                    ds = takeWhile is_digit rest
                in if ds = [] then None
                   else Some (if neg then - int (digits_val ds) else int (digits_val ds),
                              dropWhile is_digit rest))
          else Some (0, str))"

definition parse_number :: "string \<Rightarrow> (number \<times> string) option" where
  "parse_number str =
     (let neg = (case str of [] \<Rightarrow> False | c # _ \<Rightarrow> c = CHR ''-'');
          s1 = (if neg then tl str else str);
          ds = takeWhile is_digit s1
      in if ds = [] \<or> (length ds > 1 \<and> hd ds = CHR ''0'') then None
         else case parse_frac (dropWhile is_digit s1) of
                None \<Rightarrow> None
              | Some (f, s2) \<Rightarrow>
                  (case parse_exp s2 of
                     None \<Rightarrow> None
                   | Some (e, s3) \<Rightarrow>
                       let m = of_nat (digits_val ds) + f;
                           v = (if e \<ge> 0 then m * 10 ^ nat e else m / 10 ^ nat (- e))
                       in Some (fl (if neg then - v else v), s3)))"

text \<open>Storing a property: a key that is present keeps its place and takes the new value.\<close>

fun set_prop :: "string \<Rightarrow> 'v \<Rightarrow> (string \<times> 'v) list \<Rightarrow> (string \<times> 'v) list" where
  "set_prop k v [] = [(k, v)]"
| "set_prop k v ((k', v') # ps) = (if k = k' then (k, v) # ps else (k', v') # set_prop k v ps)"

text \<open>
  A value, the elements of an array after its first bracket, and the members of an object
  after its first brace. The first argument bounds the depth of the calls; every call
  consumes a character, so the length of the text is enough.
\<close>

fun parse_value :: "nat \<Rightarrow> string \<Rightarrow> (json \<times> string) option"
  and parse_elements :: "nat \<Rightarrow> string \<Rightarrow> (json list \<times> string) option"
  and parse_members :: "nat \<Rightarrow> string \<Rightarrow> ((string \<times> json) list \<times> string) option"
where
  "parse_value 0 str = None"
| "parse_value (Suc n) str =
     (case skip_ws str of
        [] \<Rightarrow> None
      | c # cs \<Rightarrow>
          if c = CHR ''{'' then
            (case skip_ws cs of
               [] \<Rightarrow> None
             | d # ds \<Rightarrow>
                 if d = CHR ''}'' then Some (JObject [], ds)
                 else (case parse_members n cs of
                         None \<Rightarrow> None
                       | Some (ms, rest) \<Rightarrow> Some (JObject (foldl (\<lambda>ps (k, v). set_prop k v ps) [] ms), rest)))
          else if c = CHR ''['' then
            (case skip_ws cs of
               [] \<Rightarrow> None
             | d # ds \<Rightarrow>
                 if d = CHR '']'' then Some (JArray [], ds)
                 else (case parse_elements n cs of
                         None \<Rightarrow> None
                       | Some (vs, rest) \<Rightarrow> Some (JArray vs, rest)))
          else if c = CHR ''\"'' then
            (case parse_chars cs of
               None \<Rightarrow> None
             | Some (text, rest) \<Rightarrow> Some (JString text, rest))
          else if take 4 (c # cs) = ''true'' then Some (JBool True, drop 4 (c # cs))
          else if take 5 (c # cs) = ''false'' then Some (JBool False, drop 5 (c # cs))
          else if take 4 (c # cs) = ''null'' then Some (JNull, drop 4 (c # cs))
          else (case parse_number (c # cs) of
                  None \<Rightarrow> None
                | Some (x, rest) \<Rightarrow> Some (JNumber x, rest)))"
| "parse_elements 0 str = None"
| "parse_elements (Suc n) str =
     (case parse_value n str of
        None \<Rightarrow> None
      | Some (v, rest) \<Rightarrow>
          (case skip_ws rest of
             [] \<Rightarrow> None
           | c # cs \<Rightarrow>
               if c = CHR '']'' then Some ([v], cs)
               else if c = CHR '','' then
                 (case parse_elements n cs of
                    None \<Rightarrow> None
                  | Some (vs, rest') \<Rightarrow> Some (v # vs, rest'))
               else None))"
| "parse_members 0 str = None"
| "parse_members (Suc n) str =
     (case skip_ws str of
        [] \<Rightarrow> None
      | q # qs \<Rightarrow>
          if q \<noteq> CHR ''\"'' then None
          else (case parse_chars qs of
                  None \<Rightarrow> None
                | Some (k, r1) \<Rightarrow>
                    (case skip_ws r1 of
                       [] \<Rightarrow> None
                     | c # r2 \<Rightarrow>
                         if c \<noteq> CHR '':'' then None
                         else (case parse_value n r2 of
                                 None \<Rightarrow> None
                               | Some (v, r3) \<Rightarrow>
                                   (case skip_ws r3 of
                                      [] \<Rightarrow> None
                                    | e # r4 \<Rightarrow>
                                        if e = CHR ''}'' then Some ([(k, v)], r4)
                                        else if e = CHR '','' then
                                          (case parse_members n r4 of
                                             None \<Rightarrow> None
                                           | Some (ms, r5) \<Rightarrow> Some ((k, v) # ms, r5))
                                        else None)))))"


subsection \<open>An instance of the date parser\<close>

text \<open>
  The date parser is a parameter of the definitions above. \<open>Date_parse_iso\<close> is the instance
  used at concrete inputs: it reads the form \<^verbatim>\<open>YYYY-MM-DDTHH:mm:ss.sssZ\<close>, which
  \<^verbatim>\<open>toISOString\<close> writes, and answers the invalid date on any other text.
\<close>

definition days_from_civil :: "int \<Rightarrow> int \<Rightarrow> int \<Rightarrow> int" where
  "days_from_civil y m d =
     (let y1 = (if m \<le> 2 then y - 1 else y);
          era = y1 div 400;
          yoe = y1 - era * 400;
          mp = (m + 9) mod 12;
          doy = (153 * mp + 2) div 5 + d - 1;
          doe = yoe * 365 + yoe div 4 - yoe div 100 + doy
      in era * 146097 + doe - 719468)"

definition days_in_month :: "int \<Rightarrow> int \<Rightarrow> int" where
  "days_in_month y m =
     (if m = 2 then (if y mod 4 = 0 \<and> (y mod 100 \<noteq> 0 \<or> y mod 400 = 0) then 29 else 28)
      else if m = 4 \<or> m = 6 \<or> m = 9 \<or> m = 11 then 30
      else 31)"

definition field :: "string \<Rightarrow> nat \<Rightarrow> nat \<Rightarrow> int option" where
  "field str i n =
     (let ds = take n (drop i str)
      in if length ds = n \<and> list_all is_digit ds then Some (int (digits_val ds)) else None)"

definition Date_parse_iso :: "string \<Rightarrow> int option" where
  "Date_parse_iso str =
     (if length str = 24 \<and> str ! 4 = CHR ''-'' \<and> str ! 7 = CHR ''-'' \<and> str ! 10 = CHR ''T''
         \<and> str ! 13 = CHR '':'' \<and> str ! 16 = CHR '':'' \<and> str ! 19 = CHR ''.''
         \<and> str ! 23 = CHR ''Z''
      then case (field str 0 4, field str 5 2, field str 8 2, field str 11 2,
                 field str 14 2, field str 17 2, field str 20 3) of
             (Some y, Some m, Some d, Some h, Some mi, Some sec, Some ms) \<Rightarrow>
               if 1 \<le> m \<and> m \<le> 12 \<and> 1 \<le> d \<and> d \<le> days_in_month y m
                  \<and> (h \<le> 23 \<or> (h = 24 \<and> mi = 0 \<and> sec = 0 \<and> ms = 0)) \<and> mi \<le> 59 \<and> sec \<le> 59
               then Some ((((days_from_civil y m d * 24 + h) * 60 + mi) * 60 + sec) * 1000 + ms)
               else None
           | _ \<Rightarrow> None
      else None)"

subsection \<open>Restoring the persisted discount\<close>
















subsection \<open>Whole numbers, and the formulas of the specification\<close>

definition isInteger :: "number \<Rightarrow> bool" where
  "isInteger x = (of_int \<lfloor>x\<rfloor> = x)"

text \<open>
  The specification rounds a tie away from zero, and states the discount amount as
  \<^verbatim>\<open>round(price * amount / 100)\<close> for a percentage and \<^verbatim>\<open>min(amount, price)\<close> for a fixed
  amount. These two definitions follow its words, to be compared with the code.
\<close>

definition spec_round :: "number \<Rightarrow> number" where
  "spec_round x = (if x \<ge> 0 then of_int \<lfloor>x + 1 / 2\<rfloor> else of_int \<lceil>x - 1 / 2\<rceil>)"

definition spec_discountAmount :: "DiscountType \<Rightarrow> number \<Rightarrow> number \<Rightarrow> number" where
  "spec_discountAmount kind price amt =
     (case kind of Percentage \<Rightarrow> spec_round (price * amt / 100) | Fixed \<Rightarrow> min amt price)"

subsection \<open>Concrete inputs\<close>

text \<open>
  A discount and a record of the backend for the code \<^verbatim>\<open>VERANO20\<close> of the tests: 20 percent,
  valid until the end of 2026, used 10 times out of 100. The examples below vary them.
\<close>

definition verano20 :: Discount where
  "verano20 =
     \<lparr>code = ''VERANO20'', type = Percentage, amount = 20,
      validUntil = Some ''2026-12-31T23:59:59.000Z'', maxUses = Some 100,
      currentUses = 10, status = Active\<rparr>"

definition verano20_record :: ResponseDiscountCode where
  "verano20_record =
     \<lparr>ResponseDiscountCode.id = 7,
      ResponseDiscountCode.code = ''VERANO20'',
      name = ''Verano'',
      discountType = Percentage,
      discountValue = 20,
      ResponseDiscountCode.maxUses = Some 100,
      ResponseDiscountCode.currentUses = 10,
      validFrom = None,
      ResponseDiscountCode.validUntil = Some ''2026-12-31T23:59:59.000Z'',
      ResponseDiscountCode.status = Active\<rparr>"

text \<open>Two moments: the start of 2026, and the start of 2027.\<close>

definition at_2026 :: int where
  "at_2026 = 1767225600000"

definition at_2027 :: int where
  "at_2027 = 1798761600000"

section \<open>Properties\<close>

subsection \<open>Whole numbers and rounding\<close>

lemma isInteger_iff: "isInteger x \<longleftrightarrow> x \<in> \<int>"
  unfolding isInteger_def by (metis Ints_of_int Ints_cases floor_of_int)

lemma Math_round_of_int [simp]: "Math_round (of_int z) = of_int z"
proof -
  have "\<lfloor>(of_int z :: rat) + 1 / 2\<rfloor> = z" by linarith
  then show ?thesis by (simp add: Math_round_def)
qed

lemma Math_round_isInteger: "isInteger x \<Longrightarrow> Math_round x = x"
  by (metis isInteger_def Math_round_of_int)

lemma isInteger_Math_round [simp]: "isInteger (Math_round x)"
  by (simp add: isInteger_def Math_round_def)

lemma isInteger_diff: "isInteger x \<Longrightarrow> isInteger y \<Longrightarrow> isInteger (x - y)"
  by (simp add: isInteger_iff)

lemma Math_round_nearest: "\<bar>Math_round x - x\<bar> \<le> 1 / 2"
  unfolding Math_round_def by linarith

lemma spec_round_of_int [simp]: "spec_round (of_int z) = of_int z"
proof -
  have "\<lfloor>(of_int z :: rat) + 1 / 2\<rfloor> = z" by linarith
  moreover have "\<lceil>(of_int z :: rat) - 1 / 2\<rceil> = z" by linarith
  ultimately show ?thesis by (simp add: spec_round_def)
qed

text \<open>The two roundings differ on the negative ties only.\<close>

lemma Math_round_negative_tie: "Math_round (- 5 / 2) = - 2 \<and> spec_round (- 5 / 2) = - 3"
  by code_simp

lemma Math_round_spec_round: "0 \<le> x \<Longrightarrow> Math_round x = spec_round x"
  by (simp add: Math_round_def spec_round_def)

subsection \<open>Double arithmetic on whole numbers\<close>

text \<open>
  Rounding to a double is symmetric, and a whole number below \<open>2 ^ 53\<close> is a double: the
  arithmetic of the source is exact as long as it stays within such numbers.
\<close>

lemma round_even_of_int [simp]: "round_even (of_int m) = m"
  by (simp add: round_even_def)

lemma round_even_minus: "round_even (- y) = - round_even y"
proof (cases "y \<in> \<int>")
  case True
  then obtain m where "y = of_int m" by (auto elim: Ints_cases)
  then have "- y = of_int (- m)" by simp
  then show ?thesis using \<open>y = of_int m\<close> by (simp only: round_even_of_int)
next
  case False
  define f where "f = \<lfloor>y\<rfloor>"
  define r where "r = y - of_int f"
  have nf: "y \<noteq> of_int f"
    using False by (metis Ints_of_int)
  have fm: "\<lfloor>- y\<rfloor> = - f - 1"
    using nf by (simp add: f_def floor_minus ceiling_altdef)
  have rm: "- y - of_int (- f - 1) = 1 - r"
    by (simp add: r_def)
  have r0: "0 < r" "r < 1"
  proof -
    have "of_int f \<le> y \<and> y < of_int f + 1" unfolding f_def by linarith
    then show "0 < r" "r < 1" using nf by (simp_all add: r_def)
  qed
  have a: "round_even y = (if r < 1 / 2 then f else if r > 1 / 2 then f + 1 else if even f then f else f + 1)"
    by (simp add: round_even_def f_def r_def Let_def)
  have b: "round_even (- y) = (if 1 - r < 1 / 2 then - f - 1 else if 1 - r > 1 / 2 then - f else if even (- f - 1) then - f - 1 else - f)"
    unfolding round_even_def Let_def fm rm by simp
  show ?thesis
    unfolding a b using r0 by auto
qed

lemma expo_of_int: "1 \<le> m \<Longrightarrow> expo (of_int m) = bitlen m - 1"
  by (simp add: expo_def)

lemma bitlen_bound_53:
  assumes "1 \<le> m" "m < 2 ^ 53"
  shows "1 \<le> bitlen m \<and> bitlen m \<le> 53"
proof -
  from assms have pos: "0 < m" by simp
  from bitlen_bounds [OF pos] have lo: "2 ^ nat (bitlen m - 1) \<le> m" by simp
  have "bitlen m \<noteq> 0" using pos by (simp add: bitlen_eq_zero_iff)
  with bitlen_nonneg [of m] have one: "1 \<le> bitlen m" by linarith
  have "(2::int) ^ nat (bitlen m - 1) < 2 ^ 53" using lo assms(2) by linarith
  then have "nat (bitlen m - 1) < 53"
    using power_strict_increasing_iff [of "2::int" "nat (bitlen m - 1)" 53] by simp
  with one show ?thesis by linarith
qed

lemma fl_minus: "fl (- x) = - fl x"
  by (simp add: fl_def Let_def round_even_minus flip: minus_divide_left)

lemma fl_of_int_nonneg:
  assumes "0 \<le> m" "m < 2 ^ 53"
  shows "fl (of_int m) = of_int m"
proof (cases "m = 0")
  case True
  then show ?thesis by (simp add: fl_def)
next
  case False
  with assms(1) have m1: "1 \<le> m" by simp
  define e where "e = bitlen m - 1"
  from bitlen_bound_53 [OF m1 assms(2)] have e: "0 \<le> e" "e \<le> 52" by (simp_all add: e_def)
  have ex: "expo \<bar>of_int m\<bar> = e"
    using m1 by (simp add: e_def expo_of_int flip: of_int_abs)
  define k where "k = nat (52 - e)"
  have q: "pow2 (max e (- 1022) - 52) = 1 / 2 ^ k"
    using e by (auto simp add: pow2_def k_def max_def)
  have "(of_int m :: rat) * 2 ^ k = of_int (m * 2 ^ k)" by simp
  then have r: "round_even (of_int m * 2 ^ k) = m * 2 ^ k"
    by (simp only: round_even_of_int)
  have nz: "(of_int m :: rat) \<noteq> 0" using m1 by simp
  show ?thesis
    using nz by (simp add: fl_def ex q r Let_def)
qed

lemma fl_of_int:
  assumes "\<bar>m\<bar> < 2 ^ 53"
  shows "fl (of_int m) = of_int m"
proof (cases "0 \<le> m")
  case True
  with assms show ?thesis by (simp add: fl_of_int_nonneg)
next
  case False
  with assms have "0 \<le> - m" "- m < 2 ^ 53" by simp_all
  then have "fl (of_int (- m)) = of_int (- m)" by (rule fl_of_int_nonneg)
  then show ?thesis by (simp add: fl_minus)
qed

lemma fl_whole: "isInteger x \<Longrightarrow> \<bar>x\<bar> < 2 ^ 53 \<Longrightarrow> fl x = x"
proof -
  assume i: "isInteger x" and b: "\<bar>x\<bar> < 2 ^ 53"
  from i obtain m where m: "x = of_int m" by (metis isInteger_def)
  with b have "\<bar>(of_int m :: rat)\<bar> < 2 ^ 53" by simp
  then have "\<bar>m\<bar> < 2 ^ 53"
    by (metis of_int_abs of_int_less_iff of_int_numeral of_int_power)
  then show ?thesis using m by (simp add: fl_of_int)
qed

subsection \<open>Rounding to the nearest double\<close>

text \<open>Powers of two with a whole exponent.\<close>

lemma pow2_powi: "pow2 e = 2 powi e"
proof (cases "0 \<le> e")
  case True
  then show ?thesis by (simp add: pow2_def power_int_def)
next
  case False
  have "inverse (2::rat) ^ nat (- e) = 1 / 2 ^ nat (- e)"
    by (simp only: inverse_eq_divide power_one_over)
  with False show ?thesis by (simp only: pow2_def power_int_def if_False)
qed

lemma pow2_pos [simp]: "0 < pow2 e"
  by (simp add: pow2_powi zero_less_power_int)

lemma pow2_add: "pow2 (a + b) = pow2 a * pow2 b"
  by (simp add: pow2_powi power_int_add)

lemma pow2_0 [simp]: "pow2 0 = 1"
  by (simp add: pow2_def)

lemma pow2_nat: "0 \<le> e \<Longrightarrow> pow2 e = 2 ^ nat e"
  by (simp add: pow2_def)

lemma pow2_Suc: "pow2 (e + 1) = 2 * pow2 e"
  by (simp add: pow2_powi power_int_add_1)

lemma pow2_pred: "pow2 (e - 1) = pow2 e / 2"
  using pow2_Suc [of "e - 1"] by simp

lemma pow2_mono: "a \<le> b \<Longrightarrow> pow2 a \<le> pow2 b"
  by (simp add: pow2_powi power_int_increasing)

lemma pow2_strict_mono: "a < b \<Longrightarrow> pow2 a < pow2 b"
  by (simp add: pow2_powi power_int_strict_increasing)

lemma pow2_less_iff: "pow2 a < pow2 b \<longleftrightarrow> a < b"
proof
  assume "pow2 a < pow2 b"
  show "a < b"
  proof (rule ccontr)
    assume "\<not> a < b"
    then have "pow2 b \<le> pow2 a" by (simp add: pow2_mono)
    with \<open>pow2 a < pow2 b\<close> show False by simp
  qed
qed (rule pow2_strict_mono)

lemma pow2_le_iff: "pow2 a \<le> pow2 b \<longleftrightarrow> a \<le> b"
proof -
  have "\<not> pow2 b < pow2 a \<longleftrightarrow> \<not> b < a" by (simp only: pow2_less_iff)
  then show ?thesis by (simp only: not_less)
qed

text \<open>The exponent of a positive number.\<close>

lemma expo_bounds:
  assumes "0 < x"
  shows "pow2 (expo x) \<le> x" and "x < pow2 (expo x + 1)"
proof -
  show "pow2 (expo x) \<le> x"
  proof (cases "1 \<le> x")
    case True
    then have pos: "0 < \<lfloor>x\<rfloor>" by linarith
    from bitlen_bounds [OF pos] have "2 ^ nat (bitlen \<lfloor>x\<rfloor> - 1) \<le> \<lfloor>x\<rfloor>" by simp
    then have "(of_int (2 ^ nat (bitlen \<lfloor>x\<rfloor> - 1)) :: rat) \<le> of_int \<lfloor>x\<rfloor>"
      by (simp only: of_int_le_iff)
    then have "(2::rat) ^ nat (bitlen \<lfloor>x\<rfloor> - 1) \<le> of_int \<lfloor>x\<rfloor>" by simp
    moreover have "of_int \<lfloor>x\<rfloor> \<le> x" by simp
    ultimately have le: "(2::rat) ^ nat (bitlen \<lfloor>x\<rfloor> - 1) \<le> x" by (rule order_trans)
    have "0 \<le> bitlen \<lfloor>x\<rfloor> - 1"
      using pos bitlen_eq_zero_iff [of "\<lfloor>x\<rfloor>"] bitlen_nonneg [of "\<lfloor>x\<rfloor>"] by linarith
    then have "pow2 (bitlen \<lfloor>x\<rfloor> - 1) = 2 ^ nat (bitlen \<lfloor>x\<rfloor> - 1)" by (rule pow2_nat)
    with le show ?thesis using True by (simp add: expo_def)
  next
    case False
    define c where "c = \<lceil>1 / x\<rceil>"
    define b where "b = bitlen (c - 1)"
    from False assms have "1 < 1 / x" by simp
    then have c2: "2 \<le> c" unfolding c_def by linarith
    then have pos: "0 < c - 1" by simp
    from bitlen_bounds [OF pos] have "c - 1 < 2 ^ nat b" by (simp add: b_def)
    then have "c \<le> 2 ^ nat b" by simp
    then have "(of_int c :: rat) \<le> of_int (2 ^ nat b)" by (simp only: of_int_le_iff)
    then have "(of_int c :: rat) \<le> 2 ^ nat b" by simp
    moreover have "1 / x \<le> of_int c" unfolding c_def by simp
    ultimately have "1 / x \<le> 2 ^ nat b" by (rule order_trans [rotated])
    then have "1 \<le> 2 ^ nat b * x" using assms by (simp add: field_simps)
    then have le: "1 / 2 ^ nat b \<le> x" by (simp add: field_simps)
    have b0: "0 \<le> b" by (simp add: b_def bitlen_nonneg)
    have "pow2 (- b) = 1 / 2 ^ nat b"
    proof (cases "b = 0")
      case True
      then show ?thesis by simp
    next
      case False
      with b0 have "\<not> 0 \<le> - b" by simp
      then show ?thesis by (simp add: pow2_def)
    qed
    with le show ?thesis using False by (simp add: expo_def c_def b_def)
  qed
  show "x < pow2 (expo x + 1)"
  proof (cases "1 \<le> x")
    case True
    then have pos: "0 < \<lfloor>x\<rfloor>" by linarith
    from bitlen_bounds [OF pos] have "\<lfloor>x\<rfloor> < 2 ^ nat (bitlen \<lfloor>x\<rfloor>)" by simp
    then have "\<lfloor>x\<rfloor> + 1 \<le> 2 ^ nat (bitlen \<lfloor>x\<rfloor>)" by simp
    then have "(of_int (\<lfloor>x\<rfloor> + 1) :: rat) \<le> of_int (2 ^ nat (bitlen \<lfloor>x\<rfloor>))"
      by (simp only: of_int_le_iff)
    then have "(of_int (\<lfloor>x\<rfloor> + 1) :: rat) \<le> 2 ^ nat (bitlen \<lfloor>x\<rfloor>)" by simp
    moreover have "x < of_int (\<lfloor>x\<rfloor> + 1)" by linarith
    ultimately have lt: "x < 2 ^ nat (bitlen \<lfloor>x\<rfloor>)" by (rule less_le_trans [rotated])
    have "pow2 (bitlen \<lfloor>x\<rfloor>) = 2 ^ nat (bitlen \<lfloor>x\<rfloor>)"
      by (rule pow2_nat) (rule bitlen_nonneg)
    with lt show ?thesis using True by (simp add: expo_def)
  next
    case False
    define c where "c = \<lceil>1 / x\<rceil>"
    define b where "b = bitlen (c - 1)"
    from False assms have "1 < 1 / x" by simp
    then have c2: "2 \<le> c" unfolding c_def by linarith
    then have pos: "0 < c - 1" by simp
    have b1: "1 \<le> b"
      using pos bitlen_eq_zero_iff [of "c - 1"] bitlen_nonneg [of "c - 1"] unfolding b_def by linarith
    from bitlen_bounds [OF pos] have "2 ^ nat (b - 1) \<le> c - 1" by (simp add: b_def)
    then have "(of_int (2 ^ nat (b - 1)) :: rat) \<le> of_int (c - 1)" by (simp only: of_int_le_iff)
    then have "(2::rat) ^ nat (b - 1) \<le> of_int (c - 1)" by simp
    moreover have "(of_int (c - 1) :: rat) < 1 / x" unfolding c_def by linarith
    ultimately have "2 ^ nat (b - 1) < 1 / x" by (rule le_less_trans)
    then have "2 ^ nat (b - 1) * x < 1" using assms by (simp add: field_simps)
    then have lt: "x < 1 / 2 ^ nat (b - 1)" by (simp add: field_simps)
    have "pow2 (- b + 1) = 1 / 2 ^ nat (b - 1)"
    proof (cases "b = 1")
      case True
      then show ?thesis by simp
    next
      case False
      with b1 have "\<not> 0 \<le> - b + 1" by simp
      then show ?thesis by (simp add: pow2_def)
    qed
    with lt show ?thesis using False by (simp add: expo_def c_def b_def)
  qed
qed

lemma expo_unique:
  assumes "0 < x" "pow2 e \<le> x" "x < pow2 (e + 1)"
  shows "expo x = e"
proof -
  from expo_bounds [OF assms(1)] assms(2,3)
  have "pow2 (expo x) < pow2 (e + 1)" "pow2 e < pow2 (expo x + 1)" by linarith+
  then have "expo x < e + 1" "e < expo x + 1" by (simp_all add: pow2_less_iff)
  then show ?thesis by simp
qed

lemma expo_less:
  assumes "0 < x" "x < pow2 k"
  shows "expo x < k"
proof -
  from expo_bounds(1) [OF assms(1)] assms(2) have "pow2 (expo x) < pow2 k" by (rule le_less_trans)
  then show ?thesis by (simp only: pow2_less_iff)
qed

lemma expo_ge:
  assumes "0 < x" "pow2 k \<le> x"
  shows "k \<le> expo x"
proof -
  from assms(2) expo_bounds(2) [OF assms(1)] have "pow2 k < pow2 (expo x + 1)" by (rule le_less_trans)
  then have "k < expo x + 1" by (simp only: pow2_less_iff)
  then show ?thesis by simp
qed

text \<open>Rounding to the nearest integer, ties to even.\<close>

lemma round_even_floor: "\<lfloor>y\<rfloor> \<le> round_even y \<and> round_even y \<le> \<lfloor>y\<rfloor> + 1"
  by (simp add: round_even_def Let_def)

lemma round_even_error: "\<bar>of_int (round_even y) - y\<bar> \<le> 1 / 2"
proof -
  have f: "of_int \<lfloor>y\<rfloor> \<le> y" "y < of_int \<lfloor>y\<rfloor> + 1" by linarith+
  consider "y - of_int \<lfloor>y\<rfloor> < 1 / 2" | "y - of_int \<lfloor>y\<rfloor> > 1 / 2" | "y - of_int \<lfloor>y\<rfloor> = 1 / 2"
    by linarith
  then show ?thesis
  proof cases
    case 1
    then have "round_even y = \<lfloor>y\<rfloor>" by (simp add: round_even_def Let_def)
    with 1 f show ?thesis by simp
  next
    case 2
    then have "round_even y = \<lfloor>y\<rfloor> + 1" by (simp add: round_even_def Let_def)
    with 2 f show ?thesis by simp
  next
    case 3
    from round_even_floor [of y]
    consider "round_even y = \<lfloor>y\<rfloor>" | "round_even y = \<lfloor>y\<rfloor> + 1" by linarith
    then show ?thesis
    proof cases
      case 1
      with 3 show ?thesis by simp
    next
      case 2
      with 3 show ?thesis by simp
    qed
  qed
qed

lemma round_even_ge: "of_int a \<le> y \<Longrightarrow> a \<le> round_even y"
proof -
  assume "of_int a \<le> y"
  then have "a \<le> \<lfloor>y\<rfloor>" by (simp add: le_floor_iff)
  with round_even_floor [of y] show ?thesis by linarith
qed

lemma round_even_le: "y \<le> of_int b \<Longrightarrow> round_even y \<le> b"
proof (cases "y = of_int b")
  case True
  then show ?thesis by (simp add: round_even_of_int)
next
  case False
  assume "y \<le> of_int b"
  with False have "y < of_int b" by simp
  then have "\<lfloor>y\<rfloor> < b" by (simp add: floor_less_iff)
  with round_even_floor [of y] show ?thesis by linarith
qed

lemma round_even_eq:
  "\<lfloor>y\<rfloor> = f \<Longrightarrow> y - of_int f < 1 / 2 \<Longrightarrow> round_even y = f"
  "\<lfloor>y\<rfloor> = f \<Longrightarrow> y - of_int f > 1 / 2 \<Longrightarrow> round_even y = f + 1"
  "\<lfloor>y\<rfloor> = f \<Longrightarrow> y - of_int f = 1 / 2 \<Longrightarrow> even f \<Longrightarrow> round_even y = f"
  "\<lfloor>y\<rfloor> = f \<Longrightarrow> y - of_int f = 1 / 2 \<Longrightarrow> odd f \<Longrightarrow> round_even y = f + 1"
  by (auto simp add: round_even_def Let_def)

lemma round_even_near_even:
  assumes "even k" "\<bar>r\<bar> \<le> 1 / 2"
  shows "round_even (of_int k + r) = k"
proof -
  define y where "y = of_int k + r"
  consider "r = 1 / 2" | "r = - 1 / 2" | "0 \<le> r" "r < 1 / 2" | "- 1 / 2 < r" "r < 0"
    using assms(2) by linarith
  then have "round_even y = k"
  proof cases
    case 1
    have f: "\<lfloor>y\<rfloor> = k" using 1 by (intro floor_unique) (simp_all add: y_def)
    have "y - of_int k = 1 / 2" using 1 by (simp add: y_def)
    with f show ?thesis using assms(1) by (rule round_even_eq(3))
  next
    case 2
    have f: "\<lfloor>y\<rfloor> = k - 1" using 2 by (intro floor_unique) (simp_all add: y_def)
    have "y - of_int (k - 1) = 1 / 2" using 2 by (simp add: y_def)
    with f have "round_even y = k - 1 + 1" using assms(1) by (intro round_even_eq(4)) simp_all
    then show ?thesis by simp
  next
    case 3
    have f: "\<lfloor>y\<rfloor> = k" using 3 by (intro floor_unique) (simp_all add: y_def)
    have "y - of_int k < 1 / 2" using 3 by (simp add: y_def)
    with f show ?thesis by (rule round_even_eq(1))
  next
    case 4
    have f: "\<lfloor>y\<rfloor> = k - 1" using 4 by (intro floor_unique) (simp_all add: y_def)
    have "y - of_int (k - 1) > 1 / 2" using 4 by (simp add: y_def)
    with f have "round_even y = k - 1 + 1" by (rule round_even_eq(2))
    then show ?thesis by simp
  qed
  then show ?thesis by (simp only: y_def)
qed

text \<open>Rounding to the nearest double: its grid, its error, and the cases where it is exact.\<close>

lemma fl_unfold:
  "x \<noteq> 0 \<Longrightarrow> fl x = of_int (round_even (x / pow2 (max (expo \<bar>x\<bar>) (- 1022) - 52)))
     * pow2 (max (expo \<bar>x\<bar>) (- 1022) - 52)"
  by (simp add: fl_def Let_def)

lemma fl_unfold_pos:
  assumes "0 < x" "- 1022 \<le> expo x"
  shows "fl x = of_int (round_even (x / pow2 (expo x - 52))) * pow2 (expo x - 52)"
proof -
  from assms(1) have "x \<noteq> 0" "\<bar>x\<bar> = x" by simp_all
  moreover from assms(2) have "max (expo x) (- 1022) = expo x" by simp
  ultimately show ?thesis using fl_unfold [of x] by simp
qed

lemma fl_error_expo:
  assumes "x \<noteq> 0"
  shows "\<bar>fl x - x\<bar> \<le> pow2 (max (expo \<bar>x\<bar>) (- 1022) - 53)"
proof -
  define E where "E = max (expo \<bar>x\<bar>) (- 1022)"
  define q where "q = pow2 (E - 52)"
  have q: "0 < q" by (simp add: q_def)
  define y where "y = x / q"
  have yq: "y * q = x" using q by (simp add: y_def)
  have fl: "fl x = of_int (round_even y) * q"
    using assms by (simp add: fl_unfold q_def y_def E_def)
  have "fl x - x = of_int (round_even y) * q - y * q" by (simp only: fl yq)
  also have "\<dots> = (of_int (round_even y) - y) * q" by (simp only: left_diff_distrib)
  finally have "\<bar>fl x - x\<bar> = \<bar>of_int (round_even y) - y\<bar> * q"
    using q by (simp add: abs_mult)
  also have "\<dots> \<le> (1 / 2) * q"
    using round_even_error [of y] q by (intro mult_right_mono) simp_all
  also have "\<dots> = pow2 (E - 53)"
    using pow2_pred [of "E - 52"] by (simp add: q_def)
  finally show ?thesis by (simp only: E_def)
qed

lemma fl_error:
  assumes "\<bar>x\<bar> < pow2 K" "- 1021 \<le> K"
  shows "\<bar>fl x - x\<bar> \<le> pow2 (K - 54)"
proof (cases "x = 0")
  case True
  have "0 \<le> pow2 (K - 54)" by (rule less_imp_le) (rule pow2_pos)
  with True show ?thesis by (simp add: fl_def)
next
  case False
  then have "0 < \<bar>x\<bar>" by simp
  from expo_less [OF this assms(1)] have "expo \<bar>x\<bar> < K" .
  with assms(2) have "max (expo \<bar>x\<bar>) (- 1022) - 53 \<le> K - 54" by simp
  then have "pow2 (max (expo \<bar>x\<bar>) (- 1022) - 53) \<le> pow2 (K - 54)" by (rule pow2_mono)
  with fl_error_expo [OF False] show ?thesis by linarith
qed

lemma fl_ge_multiple:
  assumes "0 < x" "- 1022 \<le> expo x" "of_int i * pow2 (expo x - 52) \<le> x"
  shows "of_int i * pow2 (expo x - 52) \<le> fl x"
proof -
  define q where "q = pow2 (expo x - 52)"
  have q: "0 < q" by (simp add: q_def)
  from assms(3) have "of_int i * q \<le> x" by (simp only: q_def)
  then have "of_int i \<le> x / q" using q by (simp add: pos_le_divide_eq)
  then have "i \<le> round_even (x / q)" by (rule round_even_ge)
  then have "(of_int i :: rat) \<le> of_int (round_even (x / q))" by (simp only: of_int_le_iff)
  then have "of_int i * q \<le> of_int (round_even (x / q)) * q"
    using q by (intro mult_right_mono) simp_all
  moreover have "fl x = of_int (round_even (x / q)) * q"
    using fl_unfold_pos [OF assms(1,2)] by (simp only: q_def)
  ultimately show ?thesis by (simp only: q_def)
qed

lemma fl_le_multiple:
  assumes "0 < x" "- 1022 \<le> expo x" "x \<le> of_int i * pow2 (expo x - 52)"
  shows "fl x \<le> of_int i * pow2 (expo x - 52)"
proof -
  define q where "q = pow2 (expo x - 52)"
  have q: "0 < q" by (simp add: q_def)
  from assms(3) have "x \<le> of_int i * q" by (simp only: q_def)
  then have "x / q \<le> of_int i" using q by (simp add: pos_divide_le_eq)
  then have "round_even (x / q) \<le> i" by (rule round_even_le)
  then have "(of_int (round_even (x / q)) :: rat) \<le> of_int i" by (simp only: of_int_le_iff)
  then have "of_int (round_even (x / q)) * q \<le> of_int i * q"
    using q by (intro mult_right_mono) simp_all
  moreover have "fl x = of_int (round_even (x / q)) * q"
    using fl_unfold_pos [OF assms(1,2)] by (simp only: q_def)
  ultimately show ?thesis by (simp only: q_def)
qed

lemma pow2_split: "k \<le> j \<Longrightarrow> pow2 j = of_int (2 ^ nat (j - k)) * pow2 k"
proof -
  assume "k \<le> j"
  then have "pow2 (j - k) = 2 ^ nat (j - k)" by (intro pow2_nat) simp
  moreover have "pow2 j = pow2 (j - k) * pow2 k" using pow2_add [of "j - k" k] by simp
  ultimately show ?thesis by simp
qed

lemma int_multiple_pow2: "j \<le> 0 \<Longrightarrow> of_int p = of_int (p * 2 ^ nat (- j)) * pow2 j"
proof -
  assume "j \<le> 0"
  then have "pow2 0 = of_int (2 ^ nat (0 - j)) * pow2 j" by (rule pow2_split)
  then have "of_int (2 ^ nat (- j)) * pow2 j = 1" by simp
  then have "of_int p * (of_int (2 ^ nat (- j)) * pow2 j) = of_int p" by (simp only: mult_1_right)
  then show ?thesis by (simp only: of_int_mult mult.assoc)
qed

lemma fl_nonneg: "0 \<le> x \<Longrightarrow> 0 \<le> fl x"
proof (cases "x = 0")
  case True
  then show ?thesis by (simp add: fl_def)
next
  case False
  assume "0 \<le> x"
  with False have pos: "0 < x" by simp
  define q where "q = pow2 (max (expo \<bar>x\<bar>) (- 1022) - 52)"
  have q: "0 < q" by (simp add: q_def)
  have "of_int 0 \<le> x / q" using pos q by simp
  then have "0 \<le> round_even (x / q)" by (rule round_even_ge)
  then have "0 \<le> of_int (round_even (x / q)) * q" using q by simp
  then show ?thesis using False by (simp add: fl_unfold q_def)
qed

lemma fl_ge_pow2:
  assumes "0 < x" "- 1022 \<le> expo x"
  shows "pow2 (expo x) \<le> fl x"
proof -
  have s: "pow2 (expo x) = of_int (2 ^ nat (expo x - (expo x - 52))) * pow2 (expo x - 52)"
    by (rule pow2_split) simp
  from expo_bounds(1) [OF assms(1)]
  have "of_int (2 ^ nat (expo x - (expo x - 52))) * pow2 (expo x - 52) \<le> x" by (simp only: s [symmetric])
  from fl_ge_multiple [OF assms this] show ?thesis by (simp only: s [symmetric])
qed

lemma fl_exact_near:
  assumes "0 < y" "- 1022 \<le> expo y" "x = of_int k * pow2 (expo y - 52)" "even k"
    and "\<bar>y - x\<bar> \<le> pow2 (expo y - 53)"
  shows "fl y = x"
proof -
  define q where "q = pow2 (expo y - 52)"
  have q: "0 < q" by (simp add: q_def)
  have h: "pow2 (expo y - 53) = q / 2"
    using pow2_pred [of "expo y - 52"] by (simp add: q_def)
  have x: "x = of_int k * q" by (simp only: assms(3) q_def)
  define r where "r = (y - x) / q"
  have "\<bar>r\<bar> = \<bar>y - x\<bar> / q" using q by (simp add: r_def)
  also have "\<dots> \<le> (q / 2) / q" using assms(5) q by (intro divide_right_mono) (simp_all add: h)
  also have "\<dots> = 1 / 2" using q by simp
  finally have r: "\<bar>r\<bar> \<le> 1 / 2" .
  have "y / q = of_int k + r" using q by (simp add: r_def x diff_divide_distrib)
  then have "round_even (y / q) = k" using round_even_near_even [OF assms(4) r] by simp
  moreover have "fl y = of_int (round_even (y / q)) * q"
    using fl_unfold_pos [OF assms(1,2)] by (simp only: q_def)
  ultimately show ?thesis by (simp only: x)
qed

lemma fl_bracket:
  assumes "0 < x" "- 1022 \<le> expo x" "expo x < k" "g = of_int i * pow2 (k - 52)"
    and "\<bar>x - g\<bar> \<le> pow2 (k - 53)"
  shows "\<bar>fl x - g\<bar> \<le> pow2 (k - 53)"
proof -
  define q where "q = pow2 (expo x - 52)"
  define M :: int where "M = 2 ^ nat (k - 53 - (expo x - 52))"
  define h where "h = pow2 (k - 53)"
  have h: "h = of_int M * q"
    unfolding h_def M_def q_def using assms(3) by (intro pow2_split) simp
  have "pow2 (k - 52) = 2 * h" using pow2_Suc [of "k - 53"] by (simp add: h_def)
  then have g: "g = of_int (2 * i) * h" by (simp add: assms(4))
  have lo: "g - h = of_int ((2 * i - 1) * M) * q" by (simp add: g h algebra_simps)
  have hi: "g + h = of_int ((2 * i + 1) * M) * q" by (simp add: g h algebra_simps)
  from assms(5) have b: "g - h \<le> x" "x \<le> g + h" by (simp_all add: h_def abs_le_iff) 
  from b(1) have "of_int ((2 * i - 1) * M) * pow2 (expo x - 52) \<le> x" by (simp only: lo q_def)
  from fl_ge_multiple [OF assms(1,2) this] have 1: "g - h \<le> fl x" by (simp only: lo q_def)
  from b(2) have "x \<le> of_int ((2 * i + 1) * M) * pow2 (expo x - 52)" by (simp only: hi q_def)
  from fl_le_multiple [OF assms(1,2) this] have 2: "fl x \<le> g + h" by (simp only: hi q_def)
  from 1 2 show ?thesis by (simp add: h_def abs_le_iff)
qed

text \<open>A double that is close enough to a whole number below \<open>2 ^ 52\<close> rounds to it.\<close>

lemma fl_near_integer:
  fixes p :: int
  assumes "1 \<le> p" "p < 2 ^ 52"
    and "\<bar>y - of_int p\<bar> \<le> pow2 (expo (of_int p) - 53)"
    and "pow2 (expo (of_int p)) \<le> y \<or> \<bar>y - of_int p\<bar> \<le> pow2 (expo (of_int p) - 54)"
  shows "fl y = of_int p"
proof -
  define e where "e = expo (of_int p :: rat)"
  have pos: "0 < (of_int p :: rat)" using assms(1) by simp
  have "pow2 0 \<le> (of_int p :: rat)" using assms(1) by simp
  from expo_ge [OF pos this] have e0: "0 \<le> e" by (simp only: e_def)
  have "(of_int p :: rat) < of_int (2 ^ 52)" using assms(2) by (simp only: of_int_less_iff)
  then have "(of_int p :: rat) < pow2 52" by (simp add: pow2_def)
  from expo_less [OF pos this] have e51: "e < 52" by (simp only: e_def)
  from expo_bounds [OF pos] have lo: "pow2 e \<le> of_int p" and hi: "of_int p < pow2 (e + 1)"
    by (simp_all only: e_def)
  have "pow2 (e + 1) = of_int (2 ^ nat (e + 1))" using e0 by (simp add: pow2_nat)
  with hi have "(of_int p :: rat) < of_int (2 ^ nat (e + 1))" by simp
  then have "p < 2 ^ nat (e + 1)" by (simp only: of_int_less_iff)
  then have "p + 1 \<le> 2 ^ nat (e + 1)" by simp
  then have "(of_int (p + 1) :: rat) \<le> of_int (2 ^ nat (e + 1))" by (simp only: of_int_le_iff)
  then have hi1: "of_int p + 1 \<le> pow2 (e + 1)"
    using \<open>pow2 (e + 1) = of_int (2 ^ nat (e + 1))\<close> by simp
  have "pow2 (e - 53) < pow2 0" using e51 by (intro pow2_strict_mono) simp
  then have u: "pow2 (e - 53) < 1" by simp
  from assms(3) have near: "\<bar>y - of_int p\<bar> \<le> pow2 (e - 53)" by (simp only: e_def)
  from near u hi1 have y_hi: "y < pow2 (e + 1)" by (simp add: abs_le_iff) 
  show ?thesis
  proof (cases "pow2 e \<le> y")
    case True
    have ypos: "0 < y" using True pow2_pos [of e] by linarith
    from expo_unique [OF ypos True y_hi] have ey: "expo y = e" .
    have n: "- 1022 \<le> expo y" using e0 ey by simp
    have "e - 52 \<le> 0" using e51 by simp
    from int_multiple_pow2 [OF this, of p]
    have P: "of_int p = of_int (p * 2 ^ nat (- (e - 52))) * pow2 (expo y - 52)" by (simp only: ey)
    have "0 < nat (- (e - 52))" using e51 by simp
    then have ev: "even (p * 2 ^ nat (- (e - 52)))" by simp
    from near have "\<bar>y - of_int p\<bar> \<le> pow2 (expo y - 53)" by (simp only: ey)
    from fl_exact_near [OF ypos n P ev this] show ?thesis .
  next
    case False
    with assms(4) have near4: "\<bar>y - of_int p\<bar> \<le> pow2 (e - 54)" by (simp add: e_def)
    have "pow2 (e - 54) \<le> pow2 (e - 1)" by (intro pow2_mono) simp
    moreover have "pow2 e = 2 * pow2 (e - 1)" using pow2_Suc [of "e - 1"] by simp
    ultimately have lo1: "pow2 (e - 1) \<le> y" using near4 lo by (simp add: abs_le_iff)
    have ypos: "0 < y" using lo1 pow2_pos [of "e - 1"] by linarith
    from False have "y < pow2 (e - 1 + 1)" by simp
    from expo_unique [OF ypos lo1 this] have ey: "expo y = e - 1" .
    have n: "- 1022 \<le> expo y" using e0 ey by simp
    have "e - 53 \<le> 0" using e51 by simp
    from int_multiple_pow2 [OF this, of p]
    have P0: "of_int p = of_int (p * 2 ^ nat (- (e - 53))) * pow2 (e - 53)" .
    have eq: "expo y - 52 = e - 53" using ey by simp
    from P0 have P: "of_int p = of_int (p * 2 ^ nat (- (e - 53))) * pow2 (expo y - 52)"
      by (simp only: eq)
    have "0 < nat (- (e - 53))" using e51 by simp
    then have ev: "even (p * 2 ^ nat (- (e - 53)))" by simp
    have eq2: "expo y - 53 = e - 54" using ey by simp
    from near4 have "\<bar>y - of_int p\<bar> \<le> pow2 (expo y - 53)" by (simp only: eq2)
    from fl_exact_near [OF ypos n P ev this] show ?thesis .
  qed
qed

text \<open>
  Two amounts in hundredths that make up a whole number: the doubles nearest to them add
  up, in double arithmetic, to that whole number.
\<close>

lemma fadd_hundredths_ordered:
  fixes a b p :: int
  assumes "0 \<le> b" "b \<le> a" "a + b = 100 * p" "p < 2 ^ 52"
  shows "fl (fl (of_int a / 100) + fl (of_int b / 100)) = of_int p"
proof (cases "b = 0")
  case True
  with assms(3) have "(of_int a :: rat) = 100 * of_int p" by simp
  then have a: "(of_int a :: rat) / 100 = of_int p" by simp
  have "0 \<le> p" using assms(1,2,3) by linarith
  with assms(4) have "\<bar>p\<bar> < 2 ^ 53" by simp
  then have "fl (of_int p) = of_int p" by (rule fl_of_int)
  with True a show ?thesis by (simp add: fl_def)
next
  case False
  with assms(1) have b1: "1 \<le> b" by simp
  define x1 :: rat where "x1 = of_int a / 100"
  define x2 :: rat where "x2 = of_int b / 100"
  define e where "e = expo (of_int p :: rat)"
  define e1 where "e1 = expo x1"
  define e2 where "e2 = expo x2"
  define A where "A = fl x1"
  define B where "B = fl x2"
  have p1: "1 \<le> p" using b1 assms(2,3) by linarith
  have pos: "0 < (of_int p :: rat)" using p1 by simp
  have x2lo: "1 / 100 \<le> x2" using b1 by (simp add: x2_def)
  then have pos2: "0 < x2" by linarith
  have le21: "x2 \<le> x1" using assms(2) by (simp add: x1_def x2_def)
  then have pos1: "0 < x1" using pos2 by linarith
  have "(of_int (a + b) :: rat) = of_int (100 * p)" by (simp only: assms(3))
  then have sum: "x1 + x2 = of_int p" by (simp add: x1_def x2_def)
  have "pow2 (- 7) \<le> x2" using x2lo by (simp add: pow2_def)
  from expo_ge [OF pos2 this] have e2lo: "- 7 \<le> e2" by (simp only: e2_def)
  from expo_bounds [OF pos2] have b2: "pow2 e2 \<le> x2" "x2 < pow2 (e2 + 1)"
    by (simp_all only: e2_def)
  from expo_bounds [OF pos1] have b1': "pow2 e1 \<le> x1" "x1 < pow2 (e1 + 1)"
    by (simp_all only: e1_def)
  from expo_bounds [OF pos] have bp: "pow2 e \<le> of_int p" "of_int p < pow2 (e + 1)"
    by (simp_all only: e_def)
  have "pow2 e2 \<le> x1" using b2(1) le21 by linarith
  from expo_ge [OF pos1 this] have e21: "e2 \<le> e1" by (simp only: e1_def)
  have "pow2 e1 \<le> of_int p" using b1'(1) sum pos2 by linarith
  from expo_ge [OF pos this] have e1e: "e1 \<le> e" by (simp only: e_def)
  have "pow2 e = 2 * pow2 (e - 1)" using pow2_Suc [of "e - 1"] by simp
  then have "pow2 (e - 1) \<le> x1" using bp(1) sum le21 by linarith
  from expo_ge [OF pos1 this] have ee1: "e - 1 \<le> e1" by (simp only: e1_def)
  have "(of_int p :: rat) < of_int (2 ^ 52)" using assms(4) by (simp only: of_int_less_iff)
  then have "(of_int p :: rat) < pow2 52" by (simp add: pow2_def)
  from expo_less [OF pos this] have e51: "e < 52" by (simp only: e_def)
  have n1: "- 1022 \<le> expo x1" using e2lo e21 by (simp add: e1_def)
  have n2: "- 1022 \<le> expo x2" using e2lo by (simp add: e2_def)
  have "x1 \<noteq> 0" using pos1 by simp
  from fl_error_expo [OF this] have errA: "\<bar>A - x1\<bar> \<le> pow2 (e1 - 53)"
    using pos1 n1 by (simp add: A_def e1_def)
  have "x2 \<noteq> 0" using pos2 by simp
  from fl_error_expo [OF this] have errB: "\<bar>B - x2\<bar> \<le> pow2 (e2 - 53)"
    using pos2 n2 by (simp add: B_def e2_def)
  from fl_ge_pow2 [OF pos1 n1] have geA: "pow2 e1 \<le> A" by (simp only: A_def e1_def)
  from fl_ge_pow2 [OF pos2 n2] have geB: "pow2 e2 \<le> B" by (simp only: B_def e2_def)
  have Bpos: "0 < B" using geB pow2_pos [of e2] by linarith
  have h53: "pow2 (e - 53) = 2 * pow2 (e - 54)" using pow2_Suc [of "e - 54"] by simp
  have near: "\<bar>A + B - of_int p\<bar> \<le> pow2 (e - 53)
      \<and> (pow2 e \<le> A + B \<or> \<bar>A + B - of_int p\<bar> \<le> pow2 (e - 54))"
  proof (cases "e2 < e1")
    case True
    from fl_unfold_pos [OF pos1 n1]
    have Am: "A = of_int (round_even (x1 / pow2 (e1 - 52))) * pow2 (e1 - 52)"
      by (simp only: A_def e1_def)
    define kA where "kA = round_even (x1 / pow2 (e1 - 52))"
    have "e1 - 52 \<le> 0" using e1e e51 by simp
    from int_multiple_pow2 [OF this, of p]
    have Pm: "of_int p = of_int (p * 2 ^ nat (- (e1 - 52))) * pow2 (e1 - 52)" .
    define g where "g = of_int p - A"
    have "g = of_int (p * 2 ^ nat (- (e1 - 52))) * pow2 (e1 - 52) - of_int kA * pow2 (e1 - 52)"
      unfolding g_def kA_def using Pm Am by simp
    then have gm: "g = of_int (p * 2 ^ nat (- (e1 - 52)) - kA) * pow2 (e1 - 52)"
      by (simp only: of_int_diff left_diff_distrib)
    have "x2 - g = A - x1" using sum by (simp add: g_def)
    with errA have "\<bar>x2 - g\<bar> \<le> pow2 (e1 - 53)" by simp
    from fl_bracket [OF pos2 n2 _ gm this] True
    have "\<bar>B - g\<bar> \<le> pow2 (e1 - 53)" by (simp add: B_def e2_def)
    moreover have "B - g = A + B - of_int p" by (simp add: g_def)
    ultimately have br: "\<bar>A + B - of_int p\<bar> \<le> pow2 (e1 - 53)" by simp
    show ?thesis
    proof (cases "e1 = e")
      case True
      with br have "\<bar>A + B - of_int p\<bar> \<le> pow2 (e - 53)" by simp
      moreover have "pow2 e \<le> A + B" using geA Bpos True by simp
      ultimately show ?thesis by simp
    next
      case False
      with e1e ee1 have "e1 = e - 1" by simp
      then have "e1 - 53 = e - 54" by simp
      with br have "\<bar>A + B - of_int p\<bar> \<le> pow2 (e - 54)" by simp
      then show ?thesis using h53 pow2_pos [of "e - 54"] by linarith
    qed
  next
    case False
    with e21 have eq: "e2 = e1" by simp
    have "e1 \<noteq> e"
    proof
      assume "e1 = e"
      with eq b1'(1) b2(1) have "2 * pow2 e \<le> x1 + x2" by simp
      then have "pow2 (e + 1) \<le> of_int p" by (simp add: pow2_Suc sum)
      with bp(2) show False by simp
    qed
    with e1e ee1 have e1: "e1 = e - 1" by simp
    then have s1: "e1 - 53 = e - 54" by simp
    from eq e1 have s2: "e2 - 53 = e - 54" by simp
    from errA have a: "\<bar>A - x1\<bar> \<le> pow2 (e - 54)" by (simp only: s1)
    from errB have b: "\<bar>B - x2\<bar> \<le> pow2 (e - 54)" by (simp only: s2)
    have "A + B - of_int p = (A - x1) + (B - x2)" using sum by simp
    then have "\<bar>A + B - of_int p\<bar> \<le> \<bar>A - x1\<bar> + \<bar>B - x2\<bar>" by (simp only: abs_triangle_ineq)
    with a b h53 have 1: "\<bar>A + B - of_int p\<bar> \<le> pow2 (e - 53)" by linarith
    have "pow2 e = 2 * pow2 (e - 1)" using pow2_Suc [of "e - 1"] by simp
    moreover from geA have "pow2 (e - 1) \<le> A" by (simp only: e1)
    moreover from geB have "pow2 (e - 1) \<le> B" by (simp only: eq e1)
    ultimately have "pow2 e \<le> A + B" by linarith
    with 1 show ?thesis by simp
  qed
  from near have n53: "\<bar>A + B - of_int p\<bar> \<le> pow2 (expo (of_int p) - 53)"
    by (simp only: e_def)
  from near have n54: "pow2 (expo (of_int p)) \<le> A + B
      \<or> \<bar>A + B - of_int p\<bar> \<le> pow2 (expo (of_int p) - 54)"
    by (simp only: e_def)
  from fl_near_integer [OF p1 assms(4) n53 n54] show ?thesis
    by (simp only: A_def B_def x1_def x2_def)
qed

lemma fadd_hundredths:
  fixes a b p :: int
  assumes "0 \<le> a" "0 \<le> b" "a + b = 100 * p" "p < 2 ^ 52"
  shows "fl (fl (of_int a / 100) + fl (of_int b / 100)) = of_int p"
proof (cases "b \<le> a")
  case True
  from fadd_hundredths_ordered [OF assms(2) True assms(3,4)] show ?thesis .
next
  case False
  then have le: "a \<le> b" by simp
  from assms(3) have "b + a = 100 * p" by simp
  from fadd_hundredths_ordered [OF assms(1) le this assms(4)] show ?thesis
    by (simp only: add.commute)
qed

text \<open>The error that the steps of the calculation accumulate stays below one half.\<close>

lemma fl_ge_int:
  fixes p :: int
  assumes "0 \<le> p" "p < 2 ^ 52" "of_int p \<le> x"
  shows "of_int p \<le> fl x"
proof (cases "p = 0")
  case True
  with assms(3) have "0 \<le> x" by simp
  then have "0 \<le> fl x" by (rule fl_nonneg)
  with True show ?thesis by simp
next
  case False
  with assms(1) have p1: "1 \<le> p" by simp
  then have pos: "0 < (of_int p :: rat)" by simp
  with assms(3) have xpos: "0 < x" by linarith
  have "pow2 0 \<le> x" using p1 assms(3) by simp
  from expo_ge [OF xpos this] have e0: "0 \<le> expo x" .
  then have n: "- 1022 \<le> expo x" by simp
  show ?thesis
  proof (cases "expo x \<le> 52")
    case True
    then have "expo x - 52 \<le> 0" by simp
    from int_multiple_pow2 [OF this, of p]
    have P: "of_int p = of_int (p * 2 ^ nat (- (expo x - 52))) * pow2 (expo x - 52)" .
    from assms(3) have "of_int (p * 2 ^ nat (- (expo x - 52))) * pow2 (expo x - 52) \<le> x"
      by (simp only: P [symmetric])
    from fl_ge_multiple [OF xpos n this] show ?thesis by (simp only: P [symmetric])
  next
    case False
    then have "pow2 52 \<le> pow2 (expo x)" by (intro pow2_mono) simp
    moreover have "(of_int p :: rat) < of_int (2 ^ 52)" using assms(2) by (simp only: of_int_less_iff)
    then have "(of_int p :: rat) < pow2 52" by (simp add: pow2_def)
    moreover note fl_ge_pow2 [OF xpos n]
    ultimately show ?thesis by linarith
  qed
qed

lemma percentage_budget:
  fixes p :: int and a :: rat
  assumes "0 \<le> p" "p < 2 ^ 44" "0 \<le> a" "a \<le> 100"
  shows "\<bar>fmul (fdiv (fmul (of_int p) a) 100) 100 - of_int p * a\<bar> \<le> 89 / 256"
proof -
  define P :: rat where "P = of_int p"
  define x1 where "x1 = P * a"
  define t1 where "t1 = fl x1"
  define t2 where "t2 = fl (t1 / 100)"
  define t3 where "t3 = fl (t2 * 100)"
  have P0: "0 \<le> P" using assms(1) by (simp add: P_def)
  have "p \<le> 2 ^ 44 - 1" using assms(2) by simp
  then have "(of_int p :: rat) \<le> of_int (2 ^ 44 - 1)" by (simp only: of_int_le_iff)
  then have P1: "P \<le> 17592186044415" by (simp add: P_def)
  have x0: "0 \<le> x1" unfolding x1_def using P0 assms(3) by (rule mult_nonneg_nonneg)
  have "P * a \<le> P * 100" using assms(4) P0 by (rule mult_left_mono)
  then have x1: "x1 \<le> 100 * P" by (simp add: x1_def)
  have p51: "pow2 51 = 2251799813685248" by (simp add: pow2_def)
  have p44: "pow2 44 = 17592186044416" by (simp add: pow2_def)
  have p3: "pow2 (- 3) = 1 / 8" by (simp add: pow2_def)
  have p10: "pow2 (- 10) = 1 / 1024" by (simp add: pow2_def)
  have "\<bar>x1\<bar> < pow2 51" using x0 x1 P1 unfolding p51 by linarith
  from fl_error [OF this] have e1: "\<bar>t1 - x1\<bar> \<le> 1 / 8" by (simp add: t1_def p3)
  have "\<bar>t1 / 100\<bar> < pow2 44" using e1 x0 x1 P1 unfolding p44 by linarith
  from fl_error [OF this] have e2: "\<bar>t2 - t1 / 100\<bar> \<le> 1 / 1024" by (simp add: t2_def p10)
  have "\<bar>t2 * 100\<bar> < pow2 51" using e2 e1 x0 x1 P1 unfolding p51 by linarith
  from fl_error [OF this] have e3: "\<bar>t3 - t2 * 100\<bar> \<le> 1 / 8" by (simp add: t3_def p3)
  from e1 e2 e3 have "\<bar>t3 - x1\<bar> \<le> 89 / 256" by linarith
  then show ?thesis by (simp add: t3_def t2_def t1_def x1_def P_def fmul_def fdiv_def)
qed

lemma percentage_cents:
  fixes p :: int and a :: rat
  assumes "0 \<le> p" "p < 2 ^ 44" "0 \<le> a" "a \<le> 100"
  shows "\<exists>n::int. Math_round (fmul (fdiv (fmul (of_int p) a) 100) 100) = of_int n
           \<and> 0 \<le> n \<and> n \<le> 100 * p \<and> \<bar>of_int n - of_int p * a\<bar> \<le> 217 / 256"
proof -
  define t3 where "t3 = fmul (fdiv (fmul (of_int p) a) 100) 100"
  define n where "n = \<lfloor>t3 + 1 / 2\<rfloor>"
  from percentage_budget [OF assms] have b: "\<bar>t3 - of_int p * a\<bar> \<le> 89 / 256"
    by (simp only: t3_def)
  have f: "of_int n \<le> t3 + 1 / 2" "t3 + 1 / 2 < of_int n + 1" unfolding n_def by linarith+
  have x0: "0 \<le> of_int p * a" using assms(1,3) by simp
  have "of_int p * a \<le> of_int p * 100" using assms(1,4) by (intro mult_left_mono) simp_all
  then have x1: "of_int p * a \<le> of_int (100 * p)" by simp
  have "(0::rat) < of_int n + 1" using f(2) b x0 by linarith
  then have "(of_int 0 :: rat) < of_int (n + 1)" by simp
  then have "0 < n + 1" by (simp only: of_int_less_iff)
  then have n0: "0 \<le> n" by simp
  have "(of_int n :: rat) < of_int (100 * p) + 1" using f(1) b x1 by linarith
  then have "(of_int n :: rat) < of_int (100 * p + 1)" by simp
  then have "n < 100 * p + 1" by (simp only: of_int_less_iff)
  then have n1: "n \<le> 100 * p" by simp
  have d: "\<bar>of_int n - of_int p * a\<bar> \<le> 217 / 256" using f b by linarith
  have "Math_round t3 = of_int n" by (simp add: Math_round_def n_def)
  with n0 n1 d show ?thesis unfolding t3_def by blast
qed

lemma final_cents:
  fixes p n :: int
  assumes "0 \<le> n" "n \<le> 100 * p" "p < 2 ^ 44"
  shows "Math_round (fmul (fsub (of_int p) (fl (of_int n / 100))) 100) = of_int (100 * p - n)"
proof -
  define P :: rat where "P = of_int p"
  define N :: rat where "N = of_int n"
  define D where "D = fl (N / 100)"
  define t4 where "t4 = fl (P - D)"
  define t5 where "t5 = fl (t4 * 100)"
  have N0: "0 \<le> N" using assms(1) by (simp add: N_def)
  have P0: "0 \<le> P" using assms(1,2) by (simp add: P_def)
  have "(of_int n :: rat) \<le> of_int (100 * p)" using assms(2) by (simp only: of_int_le_iff)
  then have N1: "N \<le> 100 * P" by (simp add: N_def P_def)
  have "p \<le> 2 ^ 44 - 1" using assms(3) by simp
  then have "(of_int p :: rat) \<le> of_int (2 ^ 44 - 1)" by (simp only: of_int_le_iff)
  then have P1: "P \<le> 17592186044415" by (simp add: P_def)
  have p51: "pow2 51 = 2251799813685248" by (simp add: pow2_def)
  have p44: "pow2 44 = 17592186044416" by (simp add: pow2_def)
  have p3: "pow2 (- 3) = 1 / 8" by (simp add: pow2_def)
  have p10: "pow2 (- 10) = 1 / 1024" by (simp add: pow2_def)
  have "\<bar>N / 100\<bar> < pow2 44" using N0 N1 P1 unfolding p44 by linarith
  from fl_error [OF this] have e1: "\<bar>D - N / 100\<bar> \<le> 1 / 1024" by (simp add: D_def p10)
  have "\<bar>P - D\<bar> < pow2 44" using e1 N0 N1 P1 P0 unfolding p44 by linarith
  from fl_error [OF this] have e2: "\<bar>t4 - (P - D)\<bar> \<le> 1 / 1024" by (simp add: t4_def p10)
  have "\<bar>t4 * 100\<bar> < pow2 51" using e2 e1 N0 N1 P1 unfolding p51 by linarith
  from fl_error [OF this] have e3: "\<bar>t5 - t4 * 100\<bar> \<le> 1 / 8" by (simp add: t5_def p3)
  from e1 e2 e3 have lo: "100 * P - N \<le> t5 + 1 / 2" and hi: "t5 + 1 / 2 < 100 * P - N + 1"
    by linarith+
  have c: "(of_int (100 * p - n) :: rat) = 100 * P - N" by (simp add: P_def N_def)
  have "\<lfloor>t5 + 1 / 2\<rfloor> = 100 * p - n"
    using lo hi by (intro floor_unique) (simp_all only: c)
  then have "Math_round t5 = of_int (100 * p - n)" by (simp only: Math_round_def)
  then show ?thesis by (simp only: t5_def t4_def D_def N_def P_def fmul_def fsub_def)
qed

lemma fixed_cents:
  fixes p k :: int
  assumes "0 \<le> p" "p < 2 ^ 44" "0 \<le> k"
  shows "\<exists>n::int. Math_min (fl (of_int k / 100)) (of_int p) = fl (of_int n / 100)
           \<and> 0 \<le> n \<and> n \<le> 100 * p"
proof (cases "fl (of_int k / 100) < of_int p")
  case True
  have "k \<le> 100 * p"
  proof (rule ccontr)
    assume "\<not> k \<le> 100 * p"
    then have "100 * p \<le> k" by simp
    then have "(of_int (100 * p) :: rat) \<le> of_int k" by (simp only: of_int_le_iff)
    then have "(of_int p :: rat) \<le> of_int k / 100" by simp
    moreover have "p < 2 ^ 52" using assms(2) by simp
    ultimately have "of_int p \<le> fl (of_int k / 100)" using assms(1) by (intro fl_ge_int)
    with True show False by simp
  qed
  with True assms(3) show ?thesis by (auto simp add: Math_min_def)
next
  case False
  have "\<bar>p\<bar> < 2 ^ 53" using assms(1,2) by simp
  then have "fl (of_int p) = of_int p" by (rule fl_of_int)
  moreover have "(of_int (100 * p) :: rat) / 100 = of_int p" by simp
  ultimately have "fl (of_int (100 * p) / 100) = of_int p" by (simp only:)
  moreover from False have "Math_min (fl (of_int k / 100)) (of_int p) = of_int p"
    by (simp only: Math_min_def if_False)
  ultimately have "Math_min (fl (of_int k / 100)) (of_int p) = fl (of_int (100 * p) / 100)"
    by (simp only:)
  moreover have "0 \<le> 100 * p" using assms(1) by simp
  ultimately show ?thesis by (intro exI [of _ "100 * p"] conjI order_refl)
qed

lemma fl_hundredths_le:
  fixes n p :: int
  assumes "0 \<le> n" "n \<le> 100 * p" "p < 2 ^ 52"
  shows "fl (of_int n / 100) \<le> of_int p"
proof (cases "n = 0")
  case True
  with assms(2) have "0 \<le> p" by simp
  with True show ?thesis by (simp add: fl_def)
next
  case False
  with assms(1) have n1: "1 \<le> n" by simp
  define x :: rat where "x = of_int n / 100"
  have lo: "1 / 100 \<le> x" using n1 by (simp add: x_def)
  then have xpos: "0 < x" by linarith
  have "(of_int n :: rat) \<le> of_int (100 * p)" using assms(2) by (simp only: of_int_le_iff)
  then have le: "x \<le> of_int p" by (simp add: x_def)
  have "pow2 (- 7) \<le> x" using lo by (simp add: pow2_def)
  from expo_ge [OF xpos this] have n: "- 1022 \<le> expo x" by simp
  have "(of_int p :: rat) < of_int (2 ^ 52)" using assms(3) by (simp only: of_int_less_iff)
  then have "(of_int p :: rat) < pow2 52" by (simp add: pow2_def)
  with le have "x < pow2 52" by linarith
  from expo_less [OF xpos this] have "expo x - 52 \<le> 0" by simp
  from int_multiple_pow2 [OF this, of p]
  have P: "of_int p = of_int (p * 2 ^ nat (- (expo x - 52))) * pow2 (expo x - 52)" .
  from le have "x \<le> of_int (p * 2 ^ nat (- (expo x - 52))) * pow2 (expo x - 52)"
    by (simp only: P [symmetric])
  from fl_le_multiple [OF xpos n this] have "fl x \<le> of_int p" by (simp only: P [symmetric])
  then show ?thesis by (simp only: x_def)
qed

subsection \<open>Recoverable errors\<close>

text \<open>
  Claim C7. \<open>isRecoverableError\<close> is true of \<open>INVALID_CODE\<close> and of \<open>NETWORK_ERROR\<close> and
  false of every other error type, of either declaration of the type.
\<close>

theorem isRecoverableError_exactly:
  "(isRecoverableError e \<longleftrightarrow> e = INVALID_CODE \<or> e = NETWORK_ERROR)
   \<and> isRecoverableError INVALID_CODE \<and> isRecoverableError NETWORK_ERROR
   \<and> \<not> isRecoverableError INACTIVE \<and> \<not> isRecoverableError EXPIRED
   \<and> \<not> isRecoverableError NO_USES_LEFT \<and> \<not> isRecoverableError UNKNOWN_ERROR
   \<and> \<not> isRecoverableError ALREADY_USED \<and> \<not> isRecoverableError VALIDATION_ERROR"
  by (simp add: isRecoverableError_def)

subsection \<open>Remaining uses\<close>

text \<open>
  Claim C10. For an applied discount, \<open>remainingUses\<close> is null when the cap \<open>maxUses\<close> is
  null and also when it is 0: a cap of zero counts as no cap. For every other cap it is
  the difference \<^verbatim>\<open>maxUses - currentUses\<close> of the source, which for whole numbers is the
  exact difference.
\<close>

theorem remainingUses_zero_cap_unlimited:
  assumes "appliedDiscount s = Some d"
  shows "(maxUses d = None \<longrightarrow> remainingUses s = None)
       \<and> (maxUses d = Some 0 \<longrightarrow> remainingUses s = None)
       \<and> (\<forall>cap. maxUses d = Some cap \<and> cap \<noteq> 0 \<longrightarrow>
             remainingUses s = Some (fsub cap (currentUses d)))
       \<and> (\<forall>cap. maxUses d = Some cap \<and> cap \<noteq> 0
                \<and> isInteger cap \<and> isInteger (currentUses d)
                \<and> \<bar>cap - currentUses d\<bar> < 2 ^ 53 \<longrightarrow>
             remainingUses s = Some (cap - currentUses d))"
proof (intro conjI allI impI)
  assume "maxUses d = None"
  with assms show "remainingUses s = None" by (simp add: remainingUses_def)
next
  assume "maxUses d = Some 0"
  with assms show "remainingUses s = None" by (simp add: remainingUses_def)
next
  fix cap
  assume "maxUses d = Some cap \<and> cap \<noteq> 0"
  with assms show "remainingUses s = Some (fsub cap (currentUses d))"
    by (simp add: remainingUses_def)
next
  fix cap
  assume h: "maxUses d = Some cap \<and> cap \<noteq> 0 \<and> isInteger cap \<and> isInteger (currentUses d)
             \<and> \<bar>cap - currentUses d\<bar> < 2 ^ 53"
  then have "isInteger (cap - currentUses d)" by (simp add: isInteger_diff)
  with h have "fsub cap (currentUses d) = cap - currentUses d"
    by (simp add: fsub_def fl_whole)
  with assms h show "remainingUses s = Some (cap - currentUses d)"
    by (simp add: remainingUses_def)
qed

text \<open>
  The discount of the tests with a cap of 0, with no cap, with 10 uses out of 100, and
  with 7 uses out of 5.
\<close>

theorem remainingUses_zero_cap_unlimited_witness:
  "remainingUses (initial\<lparr>appliedDiscount := Some (verano20\<lparr>maxUses := Some 0\<rparr>)\<rparr>) = None
   \<and> remainingUses (initial\<lparr>appliedDiscount := Some (verano20\<lparr>maxUses := None\<rparr>)\<rparr>) = None
   \<and> remainingUses (initial\<lparr>appliedDiscount := Some verano20\<rparr>) = Some 90
   \<and> remainingUses (initial\<lparr>appliedDiscount :=
        Some (verano20\<lparr>maxUses := Some 5, currentUses := 7\<rparr>)\<rparr>) = Some (- 2)"
proof -
  have a: "remainingUses (initial\<lparr>appliedDiscount := Some (verano20\<lparr>maxUses := Some 0\<rparr>)\<rparr>) = None"
    using remainingUses_zero_cap_unlimited
            [of "initial\<lparr>appliedDiscount := Some (verano20\<lparr>maxUses := Some 0\<rparr>)\<rparr>"
                "verano20\<lparr>maxUses := Some 0\<rparr>"]
    by simp
  have b: "remainingUses (initial\<lparr>appliedDiscount := Some (verano20\<lparr>maxUses := None\<rparr>)\<rparr>) = None"
    using remainingUses_zero_cap_unlimited
            [of "initial\<lparr>appliedDiscount := Some (verano20\<lparr>maxUses := None\<rparr>)\<rparr>"
                "verano20\<lparr>maxUses := None\<rparr>"]
    by simp
  have i1: "isInteger 100 \<and> isInteger 10 \<and> isInteger 5 \<and> isInteger 7
            \<and> fsub 100 10 = 90 \<and> fsub 5 7 = - 2"
    by code_simp
  have c: "remainingUses (initial\<lparr>appliedDiscount := Some verano20\<rparr>) = Some 90"
    using remainingUses_zero_cap_unlimited [of "initial\<lparr>appliedDiscount := Some verano20\<rparr>" verano20]
          i1
    by (simp add: verano20_def)
  have d: "remainingUses (initial\<lparr>appliedDiscount :=
             Some (verano20\<lparr>maxUses := Some 5, currentUses := 7\<rparr>)\<rparr>) = Some (- 2)"
    using remainingUses_zero_cap_unlimited
            [of "initial\<lparr>appliedDiscount := Some (verano20\<lparr>maxUses := Some 5, currentUses := 7\<rparr>)\<rparr>"
                "verano20\<lparr>maxUses := Some 5, currentUses := 7\<rparr>"]
          i1
    by simp
  show ?thesis using a b c d by simp
qed

subsection \<open>The fields of a calculation\<close>

lemma discountAmount_Some:
  "appliedDiscount s = Some d \<Longrightarrow>
   discountAmount (getDiscountCalculation s price) =
     (if type d = Percentage
      then fdiv (Math_round (fmul (fdiv (fmul price (amount d)) 100) 100)) 100
      else Math_min (amount d) price)"
  by (simp add: getDiscountCalculation_def Let_def)

lemma finalPrice_Some:
  "appliedDiscount s = Some d \<Longrightarrow>
   finalPrice (getDiscountCalculation s price) =
     fdiv (Math_round (fmul (fsub price (discountAmount (getDiscountCalculation s price))) 100)) 100"
  by (simp add: getDiscountCalculation_def Let_def)

lemma originalPrice_any: "originalPrice (getDiscountCalculation s price) = price"
  by (simp add: getDiscountCalculation_def Let_def split: option.splits)

text \<open>The computed store and the one-time read calculate the same.\<close>

lemma calculateDiscountAmount_same:
  "calculateDiscountAmount price (appliedDiscount s) = getDiscountCalculation s price"
  by (simp add: calculateDiscountAmount_def getDiscountCalculation_def)

subsection \<open>Calculations on whole numbers\<close>

lemma isInteger_times_100: "isInteger x \<Longrightarrow> isInteger (x * 100)"
  by (simp add: isInteger_iff)

text \<open>
  A percentage of a whole price that is itself whole is computed exactly: every
  intermediate value is a whole number below \<open>2 ^ 53\<close>.
\<close>

lemma percentage_of_whole:
  assumes p: "0 \<le> price" "100 * price < 2 ^ 53"
    and a: "0 \<le> a" "a \<le> 100"
    and w: "isInteger (price * a / 100)"
  shows "fdiv (Math_round (fmul (fdiv (fmul price a) 100) 100)) 100 = price * a / 100"
proof -
  define k where "k = price * a / 100"
  have pa: "price * a = k * 100" by (simp add: k_def)
  have ik: "isInteger k" using w by (simp add: k_def)
  then have ipa: "isInteger (price * a)" unfolding pa by (rule isInteger_times_100)
  have lo: "0 \<le> price * a" using p(1) a(1) by simp
  have "price * a \<le> price * 100" using p(1) a(2) by (rule mult_left_mono [rotated])
  with p(2) have hi: "price * a < 2 ^ 53" by simp
  have bpa: "\<bar>price * a\<bar> < 2 ^ 53" using lo hi by simp
  have "0 \<le> k" using lo unfolding k_def by (rule divide_nonneg_nonneg) simp
  moreover have "k \<le> price * a" using lo unfolding k_def by linarith
  ultimately have bk: "\<bar>k\<bar> < 2 ^ 53" using hi by simp
  have s1: "fmul price a = price * a"
    using ipa bpa by (simp add: fmul_def fl_whole)
  have s2: "fdiv (price * a) 100 = k"
    using ik bk by (simp add: fdiv_def fl_whole flip: k_def)
  have s3: "fmul k 100 = price * a"
    using ipa bpa by (simp add: fmul_def fl_whole flip: pa)
  have s4: "Math_round (price * a) = price * a"
    using ipa by (rule Math_round_isInteger)
  show ?thesis
    by (simp only: s1 s2 s3 s4) (simp add: k_def)
qed

subsection \<open>The discount amount\<close>

text \<open>
  Claim C2, as stated: the discount amount of a percentage discount is
  \<^verbatim>\<open>round(price * amount / 100)\<close>. It fails for 10 percent of 45: the code answers 4.5, the
  formula 5. The code rounds to hundredths, not to whole units.
\<close>

theorem discountAmount_percentage_counterexample:
  "discountAmount (getDiscountCalculation
       (initial\<lparr>appliedDiscount := Some
          \<lparr>code = ''VERANO10'', type = Percentage, amount = 10, validUntil = None,
           maxUses = None, currentUses = 0, status = Active\<rparr>\<rparr>) 45) = 9 / 2
   \<and> spec_discountAmount Percentage 45 10 = 5"
  by code_simp

text \<open>
  Claim C2, amended. For an applied fixed discount the discount amount is
  \<^verbatim>\<open>min(amount, price)\<close>. For an applied percentage discount it is
  \<^verbatim>\<open>Math.round(price * amount / 100 * 100) / 100\<close> in double arithmetic, a whole number
  divided by 100: the percentage of the price rounded to hundredths. It is the
  \<^verbatim>\<open>round(price * amount / 100)\<close> of the specification when that quotient is a whole
  number, for a price from 0 up to \<open>2 ^ 53 / 100\<close> and an amount from 0 to 100.
\<close>

theorem discountAmount_by_kind:
  assumes "appliedDiscount s = Some d"
  shows "(type d = Fixed \<longrightarrow>
            discountAmount (getDiscountCalculation s price)
              = spec_discountAmount Fixed price (amount d))
       \<and> (type d = Percentage \<longrightarrow>
            discountAmount (getDiscountCalculation s price)
              = fdiv (Math_round (fmul (fdiv (fmul price (amount d)) 100) 100)) 100
            \<and> (\<exists>k::int. discountAmount (getDiscountCalculation s price) = fdiv (of_int k) 100))
       \<and> (type d = Percentage \<and> 0 \<le> price \<and> 100 * price < 2 ^ 53
            \<and> 0 \<le> amount d \<and> amount d \<le> 100 \<and> isInteger (price * amount d / 100) \<longrightarrow>
            discountAmount (getDiscountCalculation s price)
              = spec_discountAmount Percentage price (amount d))"
proof (intro conjI impI)
  assume "type d = Fixed"
  with assms show "discountAmount (getDiscountCalculation s price)
                     = spec_discountAmount Fixed price (amount d)"
    by (auto simp add: discountAmount_Some Math_min_def spec_discountAmount_def)
next
  assume "type d = Percentage"
  with assms show "discountAmount (getDiscountCalculation s price)
                     = fdiv (Math_round (fmul (fdiv (fmul price (amount d)) 100) 100)) 100"
    by (simp add: discountAmount_Some)
next
  assume "type d = Percentage"
  with assms have "discountAmount (getDiscountCalculation s price)
      = fdiv (of_int \<lfloor>fmul (fdiv (fmul price (amount d)) 100) 100 + 1 / 2\<rfloor>) 100"
    by (simp add: discountAmount_Some Math_round_def)
  then show "\<exists>k::int. discountAmount (getDiscountCalculation s price) = fdiv (of_int k) 100"
    by blast
next
  assume h: "type d = Percentage \<and> 0 \<le> price \<and> 100 * price < 2 ^ 53
               \<and> 0 \<le> amount d \<and> amount d \<le> 100 \<and> isInteger (price * amount d / 100)"
  then have e: "fdiv (Math_round (fmul (fdiv (fmul price (amount d)) 100) 100)) 100
                  = price * amount d / 100"
    by (simp add: percentage_of_whole)
  from h obtain z where z: "price * amount d / 100 = of_int z"
    by (metis isInteger_def)
  have "spec_round (price * amount d / 100) = price * amount d / 100"
    by (simp only: z spec_round_of_int)
  with assms h e show "discountAmount (getDiscountCalculation s price)
                         = spec_discountAmount Percentage price (amount d)"
    by (simp add: discountAmount_Some spec_discountAmount_def)
qed

text \<open>
  The scenario of the specification (20 percent of 5000 is 1000), 15.5 percent of 19.99,
  which is 3.1, and a fixed discount of 50 on a price of 30.
\<close>

theorem discountAmount_by_kind_witness:
  "discountAmount (getDiscountCalculation (initial\<lparr>appliedDiscount := Some verano20\<rparr>) 5000) = 1000
   \<and> discountAmount (getDiscountCalculation
        (initial\<lparr>appliedDiscount := Some (verano20\<lparr>amount := 31 / 2\<rparr>)\<rparr>) (fl (1999 / 100)))
      = fl (31 / 10)
   \<and> discountAmount (getDiscountCalculation
        (initial\<lparr>appliedDiscount := Some (verano20\<lparr>type := Fixed, amount := 50\<rparr>)\<rparr>) 30) = 30"
proof -
  have whole: "isInteger (5000 * amount verano20 / 100)"
    by code_simp
  have a: "discountAmount (getDiscountCalculation (initial\<lparr>appliedDiscount := Some verano20\<rparr>) 5000)
             = spec_discountAmount Percentage 5000 (amount verano20)"
    using discountAmount_by_kind [of "initial\<lparr>appliedDiscount := Some verano20\<rparr>" verano20 5000] whole
    by (simp add: verano20_def)
  have b: "discountAmount (getDiscountCalculation
             (initial\<lparr>appliedDiscount := Some (verano20\<lparr>amount := 31 / 2\<rparr>)\<rparr>) (fl (1999 / 100)))
             = fdiv (Math_round (fmul (fdiv (fmul (fl (1999 / 100))
                  (amount (verano20\<lparr>amount := 31 / 2\<rparr>))) 100) 100)) 100"
    using discountAmount_by_kind [of "initial\<lparr>appliedDiscount := Some (verano20\<lparr>amount := 31 / 2\<rparr>)\<rparr>"
                                     "verano20\<lparr>amount := 31 / 2\<rparr>" "fl (1999 / 100)"]
    by (simp add: verano20_def)
  have c: "discountAmount (getDiscountCalculation
             (initial\<lparr>appliedDiscount := Some (verano20\<lparr>type := Fixed, amount := 50\<rparr>)\<rparr>) 30)
             = spec_discountAmount Fixed 30 (amount (verano20\<lparr>type := Fixed, amount := 50\<rparr>))"
    using discountAmount_by_kind [of "initial\<lparr>appliedDiscount := Some (verano20\<lparr>type := Fixed, amount := 50\<rparr>)\<rparr>"
                                     "verano20\<lparr>type := Fixed, amount := 50\<rparr>" 30]
    by (simp add: verano20_def)
  have va: "spec_discountAmount Percentage 5000 (amount verano20) = 1000"
    by code_simp
  have vb: "fdiv (Math_round (fmul (fdiv (fmul (fl (1999 / 100))
                  (amount (verano20\<lparr>amount := 31 / 2\<rparr>))) 100) 100)) 100 = fl (31 / 10)"
    by code_simp
  have vc: "spec_discountAmount Fixed 30 (amount (verano20\<lparr>type := Fixed, amount := 50\<rparr>)) = 30"
    by code_simp
  show ?thesis
    using a b c va vb vc by simp
qed

subsection \<open>Final price plus discount amount\<close>

text \<open>
  Claim C3, as stated: for every price and discount the final price and the discount
  amount add up to the original price exactly, and the amounts are whole numbers of
  cents. Both parts fail. With whole inputs, 10 percent of 45, the amounts are 4.5 and
  40.5. With a price of 19.99 and a fixed discount of 5.50, the final price is 14.49 and
  the sum \<^verbatim>\<open>finalPrice + discountAmount\<close> is the double 19.990000000000002, not 19.99.
\<close>

theorem final_plus_discount_counterexample:
  "discountAmount (getDiscountCalculation
       (initial\<lparr>appliedDiscount := Some
          \<lparr>code = ''VERANO10'', type = Percentage, amount = 10, validUntil = None,
           maxUses = None, currentUses = 0, status = Active\<rparr>\<rparr>) 45) = 9 / 2
   \<and> finalPrice (getDiscountCalculation
       (initial\<lparr>appliedDiscount := Some
          \<lparr>code = ''VERANO10'', type = Percentage, amount = 10, validUntil = None,
           maxUses = None, currentUses = 0, status = Active\<rparr>\<rparr>) 45) = 81 / 2
   \<and> \<not> isInteger (9 / 2) \<and> \<not> isInteger (81 / 2)
   \<and> originalPrice (getDiscountCalculation
       (initial\<lparr>appliedDiscount := Some
          \<lparr>code = ''FIJO'', type = Fixed, amount = 11 / 2, validUntil = None,
           maxUses = None, currentUses = 0, status = Active\<rparr>\<rparr>) (fl (1999 / 100)))
       = fl (1999 / 100)
   \<and> discountAmount (getDiscountCalculation
       (initial\<lparr>appliedDiscount := Some
          \<lparr>code = ''FIJO'', type = Fixed, amount = 11 / 2, validUntil = None,
           maxUses = None, currentUses = 0, status = Active\<rparr>\<rparr>) (fl (1999 / 100))) = 11 / 2
   \<and> finalPrice (getDiscountCalculation
       (initial\<lparr>appliedDiscount := Some
          \<lparr>code = ''FIJO'', type = Fixed, amount = 11 / 2, validUntil = None,
           maxUses = None, currentUses = 0, status = Active\<rparr>\<rparr>) (fl (1999 / 100)))
       = fl (1449 / 100)
   \<and> fadd (fl (1449 / 100)) (11 / 2) = fl (19990000000000002 / 1000000000000000)
   \<and> fl (19990000000000002 / 1000000000000000) \<noteq> fl (1999 / 100)"
  by code_simp

text \<open>
  The sum is not exact either for a fixed amount that is not a whole number of
  hundredths, nor for a whole price that is too large. A fixed discount of 0.123 on a
  price of 10 leaves 9.88, and \<^verbatim>\<open>9.88 + 0.123\<close> is 10.003. With 26 percent of
  34488680435987, a price between \<open>2 ^ 44\<close> and \<open>2 ^ 45\<close>, the discount amount is
  8967056913356.62 and the final price is computed as 25521623522630.39, one hundredth too
  much: the errors of the double operations before \<^verbatim>\<open>Math.round\<close> exceed one half.
\<close>

lemma final_plus_discount_fixed_thousandths:
  "discountAmount (getDiscountCalculation
       (initial\<lparr>appliedDiscount := Some
          \<lparr>code = ''FIJO'', type = Fixed, amount = fl (123 / 1000), validUntil = None,
           maxUses = None, currentUses = 0, status = Active\<rparr>\<rparr>) 10) = fl (123 / 1000)
   \<and> finalPrice (getDiscountCalculation
       (initial\<lparr>appliedDiscount := Some
          \<lparr>code = ''FIJO'', type = Fixed, amount = fl (123 / 1000), validUntil = None,
           maxUses = None, currentUses = 0, status = Active\<rparr>\<rparr>) 10) = fl (988 / 100)
   \<and> fadd (fl (988 / 100)) (fl (123 / 1000)) = fl (10003 / 1000)
   \<and> fl (10003 / 1000) \<noteq> 10"
  by code_simp

lemma final_plus_discount_large_price:
  "discountAmount (getDiscountCalculation
       (initial\<lparr>appliedDiscount := Some
          \<lparr>code = ''VERANO26'', type = Percentage, amount = 26, validUntil = None,
           maxUses = None, currentUses = 0, status = Active\<rparr>\<rparr>) 34488680435987)
      = fl (896705691335662 / 100)
   \<and> finalPrice (getDiscountCalculation
       (initial\<lparr>appliedDiscount := Some
          \<lparr>code = ''VERANO26'', type = Percentage, amount = 26, validUntil = None,
           maxUses = None, currentUses = 0, status = Active\<rparr>\<rparr>) 34488680435987)
      = fl (2552162352263039 / 100)
   \<and> fadd (fl (2552162352263039 / 100)) (fl (896705691335662 / 100))
      = 34488680435987 + 1 / 128
   \<and> (2::rat) ^ 44 \<le> 34488680435987 \<and> (34488680435987::rat) < 2 ^ 45"
  by code_simp

text \<open>
  Claim C3, amended. For a whole price from 0 up to \<open>2 ^ 44\<close> and an applied discount that
  is a percentage from 0 to 100, whole or not, or a fixed amount that is the double nearest
  to a whole number of hundredths: \<^verbatim>\<open>finalPrice + discountAmount\<close>, evaluated in double
  arithmetic, is the original price exactly. The discount amount is the double nearest to
  \<open>n / 100\<close> for a whole number \<open>n\<close> of hundredths from 0 to 100 times the price, and the
  final price is the double nearest to the price minus \<open>n / 100\<close>. For a percentage, \<open>n\<close>
  is the percentage of the price in hundredths rounded by \<^verbatim>\<open>Math.round\<close>: it differs
  from price times percentage by at most \<open>217 / 256\<close>, one half for the rounding and
  \<open>89 / 256\<close> for the three double operations before it, and it is price times percentage
  itself when that product is whole. For a fixed discount the amount is
  \<^verbatim>\<open>min(amount, price)\<close>. The discount amount lies between 0 and the price, and the final
  price is not negative. The amounts are doubles in units with two decimals, not integers,
  and \<^verbatim>\<open>Math.round\<close> rounds a tie upwards.
\<close>

theorem final_plus_discount_on_whole_prices:
  assumes applied: "appliedDiscount s = Some d"
    and price: "isInteger price" "0 \<le> price" "price < 2 ^ 44"
    and pct: "type d = Percentage \<longrightarrow> 0 \<le> amount d \<and> amount d \<le> 100"
    and fixed: "type d = Fixed \<longrightarrow> (\<exists>k::int. 0 \<le> k \<and> amount d = fl (of_int k / 100))"
  shows "fadd (finalPrice (getDiscountCalculation s price))
              (discountAmount (getDiscountCalculation s price))
           = originalPrice (getDiscountCalculation s price)
       \<and> originalPrice (getDiscountCalculation s price) = price
       \<and> (\<exists>n::int. 0 \<le> n \<and> of_int n \<le> 100 * price
             \<and> discountAmount (getDiscountCalculation s price) = fl (of_int n / 100)
             \<and> finalPrice (getDiscountCalculation s price) = fl ((100 * price - of_int n) / 100)
             \<and> (type d = Percentage \<longrightarrow>
                   \<bar>of_int n - price * amount d\<bar> \<le> 217 / 256
                   \<and> (isInteger (price * amount d) \<longrightarrow> of_int n = price * amount d))
             \<and> (type d = Fixed \<longrightarrow>
                   discountAmount (getDiscountCalculation s price) = Math_min (amount d) price))
       \<and> 0 \<le> discountAmount (getDiscountCalculation s price)
       \<and> discountAmount (getDiscountCalculation s price) \<le> price
       \<and> 0 \<le> finalPrice (getDiscountCalculation s price)"
proof -
  define c where "c = getDiscountCalculation s price"
  from price(1) obtain p :: int where P: "price = of_int p" by (auto simp add: isInteger_def)
  have "(of_int 0 :: rat) \<le> of_int p" using price(2) by (simp only: P of_int_0)
  then have p0: "0 \<le> p" by (simp only: of_int_le_iff)
  have "(of_int p :: rat) < of_int (2 ^ 44)" using price(3) by (simp add: P)
  then have p1: "p < 2 ^ 44" by (simp only: of_int_less_iff)
  then have p52: "p < 2 ^ 52" by simp
  have "\<exists>n::int. 0 \<le> n \<and> n \<le> 100 * p \<and> discountAmount c = fl (of_int n / 100)
          \<and> (type d = Percentage \<longrightarrow> \<bar>of_int n - of_int p * amount d\<bar> \<le> 217 / 256)
          \<and> (type d = Fixed \<longrightarrow> discountAmount c = Math_min (amount d) (of_int p))"
  proof (cases "type d")
    case Percentage
    with pct have a: "0 \<le> amount d" "amount d \<le> 100" by simp_all
    from percentage_cents [OF p0 p1 a] obtain n :: int
      where n: "Math_round (fmul (fdiv (fmul (of_int p) (amount d)) 100) 100) = of_int n"
        "0 \<le> n" "n \<le> 100 * p" "\<bar>of_int n - of_int p * amount d\<bar> \<le> 217 / 256"
      by blast
    from applied Percentage
    have "discountAmount c
            = fdiv (Math_round (fmul (fdiv (fmul (of_int p) (amount d)) 100) 100)) 100"
      by (simp add: c_def discountAmount_Some P)
    then have "discountAmount c = fdiv (of_int n) 100" by (simp only: n(1))
    then have "discountAmount c = fl (of_int n / 100)" by (simp only: fdiv_def)
    with n(2,3,4) Percentage show ?thesis by auto
  next
    case Fixed
    with fixed obtain k :: int where k: "0 \<le> k" "amount d = fl (of_int k / 100)" by auto
    from fixed_cents [OF p0 p1 k(1)] obtain n :: int
      where n: "Math_min (fl (of_int k / 100)) (of_int p) = fl (of_int n / 100)"
        "0 \<le> n" "n \<le> 100 * p"
      by blast
    from applied Fixed have m: "discountAmount c = Math_min (amount d) (of_int p)"
      by (simp add: c_def discountAmount_Some P)
    then have "discountAmount c = fl (of_int n / 100)" by (simp only: k(2) n(1))
    with n(2,3) m Fixed show ?thesis by auto
  qed
  then obtain n :: int
    where n: "0 \<le> n" "n \<le> 100 * p" and D: "discountAmount c = fl (of_int n / 100)"
      and np: "type d = Percentage \<longrightarrow> \<bar>of_int n - of_int p * amount d\<bar> \<le> 217 / 256"
      and nf: "type d = Fixed \<longrightarrow> discountAmount c = Math_min (amount d) (of_int p)"
    by blast
  have cP: "c = getDiscountCalculation s (of_int p)" by (simp only: c_def P)
  from finalPrice_Some [OF applied, of "of_int p"]
  have "finalPrice c = fdiv (Math_round (fmul (fsub (of_int p) (discountAmount c)) 100)) 100"
    by (simp only: cP [symmetric])
  then have "finalPrice c = fdiv (Math_round (fmul (fsub (of_int p) (fl (of_int n / 100))) 100)) 100"
    by (simp only: D)
  then have "finalPrice c = fdiv (of_int (100 * p - n)) 100"
    by (simp only: final_cents [OF n p1])
  then have F: "finalPrice c = fl (of_int (100 * p - n) / 100)"
    by (simp only: fdiv_def)
  have m0: "0 \<le> 100 * p - n" using n(2) by simp
  have "100 * p - n + n = 100 * p" by simp
  from fadd_hundredths [OF m0 n(1) this p52]
  have sum: "fadd (finalPrice c) (discountAmount c) = of_int p" by (simp only: fadd_def F D)
  have c1: "(of_int n :: rat) \<le> 100 * of_int p"
  proof -
    have "(of_int n :: rat) \<le> of_int (100 * p)" using n(2) by (simp only: of_int_le_iff)
    then show ?thesis by simp
  qed
  have c2: "(of_int (100 * p - n) :: rat) = 100 * of_int p - of_int n" by simp
  have whole: "type d = Percentage \<longrightarrow> isInteger (of_int p * amount d)
                 \<longrightarrow> of_int n = of_int p * amount d"
  proof (intro impI)
    assume t: "type d = Percentage" and i: "isInteger (of_int p * amount d)"
    from i obtain z :: int where z: "of_int p * amount d = of_int z"
      by (metis isInteger_def)
    from np t have "\<bar>(of_int n :: rat) - of_int z\<bar> < 1" by (simp add: z)
    then have "\<bar>(of_int (n - z) :: rat)\<bar> < of_int 1" by simp
    then have "\<bar>n - z\<bar> < 1" by (simp only: of_int_abs [symmetric] of_int_less_iff)
    then have "n = z" by simp
    then show "of_int n = of_int p * amount d" by (simp only: z)
  qed
  have d0: "0 \<le> discountAmount c"
    unfolding D using n(1) by (intro fl_nonneg) simp
  have d1: "discountAmount c \<le> of_int p"
    unfolding D using n p52 by (rule fl_hundredths_le)
  have f0: "0 \<le> finalPrice c"
    unfolding F using m0 by (intro fl_nonneg) simp
  have ex: "\<exists>n::int. 0 \<le> n \<and> of_int n \<le> 100 * (of_int p :: rat)
             \<and> discountAmount c = fl (of_int n / 100)
             \<and> finalPrice c = fl ((100 * of_int p - of_int n) / 100)
             \<and> (type d = Percentage \<longrightarrow>
                   \<bar>of_int n - of_int p * amount d\<bar> \<le> 217 / 256
                   \<and> (isInteger (of_int p * amount d) \<longrightarrow> of_int n = of_int p * amount d))
             \<and> (type d = Fixed \<longrightarrow> discountAmount c = Math_min (amount d) (of_int p))"
    using n(1) c1 D F [unfolded c2] np whole nf by blast
  have o: "originalPrice c = of_int p" by (simp only: c_def originalPrice_any P)
  from sum o ex d0 d1 f0 show ?thesis
    unfolding P cP by (intro conjI) (simp_all only:)
qed

text \<open>
  Ten percent of 45 is 4.5 and leaves 40.5. Twelve and a half percent of 45 is 5.625,
  rounded upwards to 5.63, and leaves 39.37. A fixed discount of 5.50 on a price of 1999
  leaves 1993.5. Each time the two amounts add up to the price.
\<close>

theorem final_plus_discount_on_whole_prices_witness:
  "fadd (finalPrice (getDiscountCalculation
            (initial\<lparr>appliedDiscount := Some (verano20\<lparr>amount := 10\<rparr>)\<rparr>) 45))
        (discountAmount (getDiscountCalculation
            (initial\<lparr>appliedDiscount := Some (verano20\<lparr>amount := 10\<rparr>)\<rparr>) 45)) = 45
   \<and> discountAmount (getDiscountCalculation
            (initial\<lparr>appliedDiscount := Some (verano20\<lparr>amount := 10\<rparr>)\<rparr>) 45) = 9 / 2
   \<and> finalPrice (getDiscountCalculation
            (initial\<lparr>appliedDiscount := Some (verano20\<lparr>amount := 10\<rparr>)\<rparr>) 45) = 81 / 2
   \<and> fadd (finalPrice (getDiscountCalculation
            (initial\<lparr>appliedDiscount := Some (verano20\<lparr>amount := 25 / 2\<rparr>)\<rparr>) 45))
        (discountAmount (getDiscountCalculation
            (initial\<lparr>appliedDiscount := Some (verano20\<lparr>amount := 25 / 2\<rparr>)\<rparr>) 45)) = 45
   \<and> discountAmount (getDiscountCalculation
            (initial\<lparr>appliedDiscount := Some (verano20\<lparr>amount := 25 / 2\<rparr>)\<rparr>) 45) = fl (563 / 100)
   \<and> finalPrice (getDiscountCalculation
            (initial\<lparr>appliedDiscount := Some (verano20\<lparr>amount := 25 / 2\<rparr>)\<rparr>) 45) = fl (3937 / 100)
   \<and> fadd (finalPrice (getDiscountCalculation
            (initial\<lparr>appliedDiscount := Some (verano20\<lparr>type := Fixed, amount := 11 / 2\<rparr>)\<rparr>) 1999))
        (discountAmount (getDiscountCalculation
            (initial\<lparr>appliedDiscount := Some (verano20\<lparr>type := Fixed, amount := 11 / 2\<rparr>)\<rparr>) 1999)) = 1999
   \<and> discountAmount (getDiscountCalculation
            (initial\<lparr>appliedDiscount := Some (verano20\<lparr>type := Fixed, amount := 11 / 2\<rparr>)\<rparr>) 1999) = 11 / 2
   \<and> finalPrice (getDiscountCalculation
            (initial\<lparr>appliedDiscount := Some (verano20\<lparr>type := Fixed, amount := 11 / 2\<rparr>)\<rparr>) 1999) = 3987 / 2"
proof -
  have a1: "appliedDiscount (initial\<lparr>appliedDiscount := Some (verano20\<lparr>amount := 10\<rparr>)\<rparr>) = Some (verano20\<lparr>amount := 10\<rparr>)"
    by simp
  have a2: "appliedDiscount (initial\<lparr>appliedDiscount := Some (verano20\<lparr>amount := 25 / 2\<rparr>)\<rparr>) = Some (verano20\<lparr>amount := 25 / 2\<rparr>)"
    by simp
  have a3: "appliedDiscount (initial\<lparr>appliedDiscount := Some (verano20\<lparr>type := Fixed, amount := 11 / 2\<rparr>)\<rparr>) = Some (verano20\<lparr>type := Fixed, amount := 11 / 2\<rparr>)"
    by simp
  have p1: "isInteger 45" "(0::rat) \<le> 45" "(45::rat) < 2 ^ 44"
    by code_simp+
  have p3: "isInteger 1999" "(0::rat) \<le> 1999" "(1999::rat) < 2 ^ 44"
    by code_simp+
  have c1: "type (verano20\<lparr>amount := 10\<rparr>) = Percentage \<longrightarrow>
              0 \<le> amount (verano20\<lparr>amount := 10\<rparr>) \<and> amount (verano20\<lparr>amount := 10\<rparr>) \<le> 100"
    by simp
  have f1: "type (verano20\<lparr>amount := 10\<rparr>) = Fixed \<longrightarrow>
              (\<exists>k::int. 0 \<le> k \<and> amount (verano20\<lparr>amount := 10\<rparr>) = fl (of_int k / 100))"
    by (simp add: verano20_def)
  have c2: "type (verano20\<lparr>amount := 25 / 2\<rparr>) = Percentage \<longrightarrow>
              0 \<le> amount (verano20\<lparr>amount := 25 / 2\<rparr>) \<and> amount (verano20\<lparr>amount := 25 / 2\<rparr>) \<le> 100"
    by simp
  have f2: "type (verano20\<lparr>amount := 25 / 2\<rparr>) = Fixed \<longrightarrow>
              (\<exists>k::int. 0 \<le> k \<and> amount (verano20\<lparr>amount := 25 / 2\<rparr>) = fl (of_int k / 100))"
    by (simp add: verano20_def)
  have c3: "type (verano20\<lparr>type := Fixed, amount := 11 / 2\<rparr>) = Percentage \<longrightarrow>
              0 \<le> amount (verano20\<lparr>type := Fixed, amount := 11 / 2\<rparr>) \<and> amount (verano20\<lparr>type := Fixed, amount := 11 / 2\<rparr>) \<le> 100"
    by simp
  have h: "fl (of_int 550 / 100) = 11 / 2" by code_simp
  have "(0::int) \<le> 550 \<and> amount (verano20\<lparr>type := Fixed, amount := 11 / 2\<rparr>) = fl (of_int 550 / 100)"
    by (simp only: h) simp
  then have "\<exists>k::int. 0 \<le> k \<and> amount (verano20\<lparr>type := Fixed, amount := 11 / 2\<rparr>) = fl (of_int k / 100)"
    by (rule exI)
  then have f3: "type (verano20\<lparr>type := Fixed, amount := 11 / 2\<rparr>) = Fixed \<longrightarrow>
              (\<exists>k::int. 0 \<le> k \<and> amount (verano20\<lparr>type := Fixed, amount := 11 / 2\<rparr>) = fl (of_int k / 100))"
    by (rule impI)
  have v1: "discountAmount (getDiscountCalculation
            (initial\<lparr>appliedDiscount := Some (verano20\<lparr>amount := 10\<rparr>)\<rparr>) 45) = 9 / 2"
    by code_simp
  have w1: "finalPrice (getDiscountCalculation
            (initial\<lparr>appliedDiscount := Some (verano20\<lparr>amount := 10\<rparr>)\<rparr>) 45) = 81 / 2"
    by code_simp
  have v2: "discountAmount (getDiscountCalculation
            (initial\<lparr>appliedDiscount := Some (verano20\<lparr>amount := 25 / 2\<rparr>)\<rparr>) 45) = fl (563 / 100)"
    by code_simp
  have w2: "finalPrice (getDiscountCalculation
            (initial\<lparr>appliedDiscount := Some (verano20\<lparr>amount := 25 / 2\<rparr>)\<rparr>) 45) = fl (3937 / 100)"
    by code_simp
  have v3: "discountAmount (getDiscountCalculation
            (initial\<lparr>appliedDiscount := Some (verano20\<lparr>type := Fixed, amount := 11 / 2\<rparr>)\<rparr>) 1999) = 11 / 2"
    by code_simp
  have w3: "finalPrice (getDiscountCalculation
            (initial\<lparr>appliedDiscount := Some (verano20\<lparr>type := Fixed, amount := 11 / 2\<rparr>)\<rparr>) 1999) = 3987 / 2"
    by code_simp
  from final_plus_discount_on_whole_prices [OF a1 p1 c1 f1]
  have s1: "fadd (finalPrice (getDiscountCalculation
            (initial\<lparr>appliedDiscount := Some (verano20\<lparr>amount := 10\<rparr>)\<rparr>) 45))
        (discountAmount (getDiscountCalculation
            (initial\<lparr>appliedDiscount := Some (verano20\<lparr>amount := 10\<rparr>)\<rparr>) 45)) = 45"
    by simp
  from final_plus_discount_on_whole_prices [OF a2 p1 c2 f2]
  have s2: "fadd (finalPrice (getDiscountCalculation
            (initial\<lparr>appliedDiscount := Some (verano20\<lparr>amount := 25 / 2\<rparr>)\<rparr>) 45))
        (discountAmount (getDiscountCalculation
            (initial\<lparr>appliedDiscount := Some (verano20\<lparr>amount := 25 / 2\<rparr>)\<rparr>) 45)) = 45"
    by simp
  from final_plus_discount_on_whole_prices [OF a3 p3 c3 f3]
  have s3: "fadd (finalPrice (getDiscountCalculation
            (initial\<lparr>appliedDiscount := Some (verano20\<lparr>type := Fixed, amount := 11 / 2\<rparr>)\<rparr>) 1999))
        (discountAmount (getDiscountCalculation
            (initial\<lparr>appliedDiscount := Some (verano20\<lparr>type := Fixed, amount := 11 / 2\<rparr>)\<rparr>) 1999)) = 1999"
    by simp
  from s1 v1 w1 s2 v2 w2 s3 v3 w3 show ?thesis by (intro conjI)
qed
subsection \<open>The expiry rule and the check on load\<close>

lemma clearDiscount_initial: "clearDiscount s = initial"
  by (simp add: clearDiscount_def initial_def)

text \<open>
  Claim C5. A discount is expired exactly when its status is \<^verbatim>\<open>inactive\<close> or \<^verbatim>\<open>expired\<close>, or
  its \<^verbatim>\<open>validUntil\<close> is a date that lies before the current time; either condition is
  enough. \<open>revalidateStoredDiscount\<close> resets the store as \<open>clearDiscount\<close> does when the stored
  discount is expired, and leaves the store as it is otherwise.
\<close>

theorem expiry_rule_and_revalidate:
  "(isDiscountExpired Date_parse now d \<longleftrightarrow>
      status d = Inactive \<or> status d = Expired
      \<or> (\<exists>text t. validUntil d = Some text \<and> text \<noteq> [] \<and> Date_parse text = Some t \<and> t < now))
   \<and> (appliedDiscount s = Some d \<and> isDiscountExpired Date_parse now d \<longrightarrow>
        revalidateStoredDiscount Date_parse now s = clearDiscount s
        \<and> clearDiscount s = initial)
   \<and> (appliedDiscount s = Some d \<and> \<not> isDiscountExpired Date_parse now d \<longrightarrow>
        revalidateStoredDiscount Date_parse now s = s)
   \<and> (appliedDiscount s = None \<longrightarrow> revalidateStoredDiscount Date_parse now s = s)"
  by (auto simp: isDiscountExpired_def revalidateStoredDiscount_def clearDiscount_initial
           split: option.splits)

text \<open>
  The discount of the tests is kept at the start of 2026 and discarded at the start of
  2027; marked inactive it is discarded at once.
\<close>

theorem expiry_rule_and_revalidate_witness:
  "revalidateStoredDiscount Date_parse_iso at_2026 (setValid verano20 initial) = setValid verano20 initial
   \<and> revalidateStoredDiscount Date_parse_iso at_2027 (setValid verano20 initial) = initial
   \<and> revalidateStoredDiscount Date_parse_iso at_2026
        (setValid (verano20\<lparr>status := Inactive\<rparr>) initial) = initial"
proof -
  have a1: "appliedDiscount (setValid verano20 initial) = Some verano20"
    by (simp add: setValid_def)
  have a2: "appliedDiscount (setValid (verano20\<lparr>status := Inactive\<rparr>) initial)
              = Some (verano20\<lparr>status := Inactive\<rparr>)"
    by (simp add: setValid_def)
  have e1: "\<not> isDiscountExpired Date_parse_iso at_2026 verano20" by code_simp
  have e2: "isDiscountExpired Date_parse_iso at_2027 verano20" by code_simp
  have e3: "isDiscountExpired Date_parse_iso at_2026 (verano20\<lparr>status := Inactive\<rparr>)" by code_simp
  from expiry_rule_and_revalidate [of Date_parse_iso at_2026 verano20 "setValid verano20 initial"] a1 e1
  have k: "revalidateStoredDiscount Date_parse_iso at_2026 (setValid verano20 initial)
             = setValid verano20 initial"
    by blast
  from expiry_rule_and_revalidate [of Date_parse_iso at_2027 verano20 "setValid verano20 initial"] a1 e2
  have d1: "revalidateStoredDiscount Date_parse_iso at_2027 (setValid verano20 initial) = initial"
    by simp
  from expiry_rule_and_revalidate [of Date_parse_iso at_2026 "verano20\<lparr>status := Inactive\<rparr>"
                                      "setValid (verano20\<lparr>status := Inactive\<rparr>) initial"] a2 e3
  have d2: "revalidateStoredDiscount Date_parse_iso at_2026
              (setValid (verano20\<lparr>status := Inactive\<rparr>) initial) = initial"
    by simp
  show ?thesis using k d1 d2 by simp
qed

subsection \<open>Entering a code\<close>

text \<open>
  Claim C6. For every raw input, \<open>setDiscountCode\<close> stores the input trimmed and then put in
  upper case, \<^verbatim>\<open>raw.trim().toUpperCase()\<close>, whatever the two built-ins answer. When an error
  is set it clears the error and sets the state to idle; when none is set it leaves the
  error and the state as they are. The applied discount is not touched.
\<close>

theorem setDiscountCode_effect:
  "discountCode (setDiscountCode trim toUpperCase raw s) = toUpperCase (trim raw)
   \<and> appliedDiscount (setDiscountCode trim toUpperCase raw s) = appliedDiscount s
   \<and> (discountError s \<noteq> None \<longrightarrow>
        discountError (setDiscountCode trim toUpperCase raw s) = None
        \<and> discountState (setDiscountCode trim toUpperCase raw s) = Idle)
   \<and> (discountError s = None \<longrightarrow>
        discountError (setDiscountCode trim toUpperCase raw s) = discountError s
        \<and> discountState (setDiscountCode trim toUpperCase raw s) = discountState s)"
proof (cases "discountError s")
  case None
  then show ?thesis
    by (simp add: setDiscountCode_def sanitizeCode_def Let_def)
next
  case (Some e)
  then show ?thesis
    by (simp add: setDiscountCode_def sanitizeCode_def Let_def)
qed

text \<open>
  The inputs of the unit tests, after an error and while validating.
\<close>

theorem setDiscountCode_effect_witness:
  "setDiscountCode trim_ascii toUpperCase_ascii ''  winter15  '' (setError INVALID_CODE initial)
     = \<lparr>discountCode = ''WINTER15'', discountState = Idle, appliedDiscount = None,
        discountError = None\<rparr>
   \<and> setDiscountCode trim_ascii toUpperCase_ascii ''summer20'' (setValidating initial)
     = \<lparr>discountCode = ''SUMMER20'', discountState = Validating, appliedDiscount = None,
        discountError = None\<rparr>"
proof -
  let ?set = "setDiscountCode trim_ascii toUpperCase_ascii"
  have t1: "toUpperCase_ascii (trim_ascii ''  winter15  '') = ''WINTER15''" by code_simp
  have t2: "toUpperCase_ascii (trim_ascii ''summer20'') = ''SUMMER20''" by code_simp
  have e1: "discountError (setError INVALID_CODE initial) \<noteq> None"
    by (simp add: setError_def)
  have e2: "discountError (setValidating initial) = None"
    by (simp add: setValidating_def)
  from setDiscountCode_effect
         [of trim_ascii toUpperCase_ascii "''  winter15  ''" "setError INVALID_CODE initial"] e1 t1
  have a: "discountCode (?set ''  winter15  '' (setError INVALID_CODE initial)) = ''WINTER15''
         \<and> appliedDiscount (?set ''  winter15  '' (setError INVALID_CODE initial)) = None
         \<and> discountError (?set ''  winter15  '' (setError INVALID_CODE initial)) = None
         \<and> discountState (?set ''  winter15  '' (setError INVALID_CODE initial)) = Idle"
    by (simp add: setError_def)
  from setDiscountCode_effect
         [of trim_ascii toUpperCase_ascii "''summer20''" "setValidating initial"] e2 t2
  have b: "discountCode (?set ''summer20'' (setValidating initial)) = ''SUMMER20''
         \<and> appliedDiscount (?set ''summer20'' (setValidating initial)) = None
         \<and> discountError (?set ''summer20'' (setValidating initial)) = None
         \<and> discountState (?set ''summer20'' (setValidating initial)) = Validating"
    by (simp add: setValidating_def initial_def)
  show ?thesis
    using a b by (simp add: store.equality)
qed

text \<open>
  On the instances for ASCII text, the stored code has no white space at either end and
  no lower-case letter.
\<close>

lemma trim_ascii_hd: "trim_ascii str \<noteq> [] \<Longrightarrow> \<not> isWhiteSpace_ascii (hd (trim_ascii str))"
proof -
  assume ne: "trim_ascii str \<noteq> []"
  define ys where "ys = dropWhile isWhiteSpace_ascii str"
  have t: "trim_ascii str = rev (dropWhile isWhiteSpace_ascii (rev ys))"
    by (simp add: trim_ascii_def ys_def)
  with ne have ysne: "ys \<noteq> []" by auto
  then have h: "\<not> isWhiteSpace_ascii (hd ys)"
    unfolding ys_def by (rule hd_dropWhile)
  have "rev (dropWhile isWhiteSpace_ascii (rev ys))
          = hd ys # tl (rev (dropWhile isWhiteSpace_ascii (rev ys)))"
  proof -
    obtain y yt where y: "ys = y # yt" using ysne by (cases ys) auto
    have "dropWhile isWhiteSpace_ascii (rev yt @ [y]) = dropWhile isWhiteSpace_ascii (rev yt) @ [y]"
      using h y by (simp add: dropWhile_append3)
    then show ?thesis using y by simp
  qed
  then have "hd (trim_ascii str) = hd ys" using t by (metis list.sel(1))
  with h show ?thesis by simp
qed

lemma trim_ascii_last: "trim_ascii str \<noteq> [] \<Longrightarrow> \<not> isWhiteSpace_ascii (last (trim_ascii str))"
proof -
  assume ne: "trim_ascii str \<noteq> []"
  then have "dropWhile isWhiteSpace_ascii (rev (dropWhile isWhiteSpace_ascii str)) \<noteq> []"
    by (simp add: trim_ascii_def)
  then have "\<not> isWhiteSpace_ascii
               (hd (dropWhile isWhiteSpace_ascii (rev (dropWhile isWhiteSpace_ascii str))))"
    by (rule hd_dropWhile)
  then show ?thesis using ne by (simp add: trim_ascii_def last_rev)
qed

lemma of_char_toUpperCase_ascii_char:
  "of_char (toUpperCase_ascii_char c)
     = (let n = of_char c :: nat in if 97 \<le> n \<and> n \<le> 122 then n - 32 else n)"
  by (auto simp add: toUpperCase_ascii_char_def Let_def)

lemma isWhiteSpace_toUpperCase_ascii_char [simp]:
  "isWhiteSpace_ascii (toUpperCase_ascii_char c) = isWhiteSpace_ascii c"
  by (auto simp add: isWhiteSpace_ascii_def of_char_toUpperCase_ascii_char Let_def)

lemma not_isLowerCase_toUpperCase_ascii_char [simp]:
  "\<not> isLowerCase_ascii (toUpperCase_ascii_char c)"
  by (auto simp add: isLowerCase_ascii_def of_char_toUpperCase_ascii_char Let_def)

lemma sanitizeCode_ascii_shape:
  "(sanitizeCode trim_ascii toUpperCase_ascii raw \<noteq> [] \<longrightarrow>
      \<not> isWhiteSpace_ascii (hd (sanitizeCode trim_ascii toUpperCase_ascii raw))
      \<and> \<not> isWhiteSpace_ascii (last (sanitizeCode trim_ascii toUpperCase_ascii raw)))
   \<and> list_all (\<lambda>c. \<not> isLowerCase_ascii c) (sanitizeCode trim_ascii toUpperCase_ascii raw)"
  using trim_ascii_hd [of raw] trim_ascii_last [of raw]
  by (simp add: sanitizeCode_def toUpperCase_ascii_def hd_map last_map list_all_iff)

subsection \<open>The state and the error\<close>

lemma perform_invariant:
  assumes "discountState s = Error \<longleftrightarrow> discountError s \<noteq> None"
  shows "discountState (perform trim toUpperCase Date_parse s a) = Error
           \<longleftrightarrow> discountError (perform trim toUpperCase Date_parse s a) \<noteq> None"
proof (cases a)
  case (SetDiscountCode raw)
  with assms show ?thesis by (simp add: setDiscountCode_def Let_def)
next
  case SetValidating
  then show ?thesis by (simp add: setValidating_def)
next
  case (SetValid d)
  then show ?thesis by (simp add: setValid_def)
next
  case (SetError e)
  then show ?thesis by (simp add: setError_def)
next
  case ClearDiscount
  then show ?thesis by (simp add: clearDiscount_def)
next
  case (RevalidateStoredDiscount now)
  with assms show ?thesis
    by (simp add: revalidateStoredDiscount_def clearDiscount_def split: option.splits)
qed

lemma run_invariant:
  assumes "discountState s = Error \<longleftrightarrow> discountError s \<noteq> None"
  shows "discountState (run trim toUpperCase Date_parse s acts) = Error
           \<longleftrightarrow> discountError (run trim toUpperCase Date_parse s acts) \<noteq> None"
  using assms unfolding run_def
proof (induction acts arbitrary: s)
  case Nil
  then show ?case by simp
next
  case (Cons a acts)
  from Cons.prems
  have "discountState (perform trim toUpperCase Date_parse s a) = Error
          \<longleftrightarrow> discountError (perform trim toUpperCase Date_parse s a) \<noteq> None"
    by (rule perform_invariant)
  then show ?case using Cons.IH by simp
qed

text \<open>
  Claim C9. From the initial state (code empty, state idle, no applied discount, no error),
  after any finite sequence of calls of \<open>setDiscountCode\<close>, \<open>setValidating\<close>, \<open>setValid\<close>,
  \<open>setError\<close>, \<open>clearDiscount\<close> and \<open>revalidateStoredDiscount\<close>, the state is \<^verbatim>\<open>error\<close> if and
  only if the error is not null.
\<close>

theorem state_error_iff_error_set:
  "initial = \<lparr>discountCode = [], discountState = Idle, appliedDiscount = None, discountError = None\<rparr>
   \<and> (discountState (run trim toUpperCase Date_parse initial acts) = Error
        \<longleftrightarrow> discountError (run trim toUpperCase Date_parse initial acts) \<noteq> None)"
proof
  show "initial = \<lparr>discountCode = [], discountState = Idle, appliedDiscount = None,
                   discountError = None\<rparr>"
    by (simp add: initial_def)
  show "discountState (run trim toUpperCase Date_parse initial acts) = Error
          \<longleftrightarrow> discountError (run trim toUpperCase Date_parse initial acts) \<noteq> None"
    by (rule run_invariant) (simp add: initial_def)
qed

text \<open>The same holds when the session starts with a persisted discount.\<close>

lemma state_error_iff_error_set_persisted:
  "discountState (run trim toUpperCase Date_parse (initial\<lparr>appliedDiscount := persisted\<rparr>) acts) = Error
     \<longleftrightarrow> discountError (run trim toUpperCase Date_parse (initial\<lparr>appliedDiscount := persisted\<rparr>) acts) \<noteq> None"
  by (rule run_invariant) (simp add: initial_def)

text \<open>\<open>hasError\<close> therefore says no more than either of its two conjuncts.\<close>

lemma hasError_run:
  "hasError (run trim toUpperCase Date_parse initial acts) \<longleftrightarrow> discountState (run trim toUpperCase Date_parse initial acts) = Error"
  using run_invariant [of initial trim toUpperCase Date_parse acts] by (auto simp add: hasError_def initial_def)

subsection \<open>The error classifier\<close>

text \<open>
  Claim C4. \<open>mapToErrorType\<close> answers, the first match winning: \<open>INVALID_CODE\<close> when there
  is no record; \<open>INACTIVE\<close> when the status of the record is \<^verbatim>\<open>inactive\<close>; \<open>EXPIRED\<close> when the
  status is \<^verbatim>\<open>expired\<close>, or \<^verbatim>\<open>validUntil\<close> is a date before the current time; \<open>NO_USES_LEFT\<close>
  when the cap \<^verbatim>\<open>maxUses\<close> is positive and \<^verbatim>\<open>currentUses\<close> has reached it; \<open>UNKNOWN_ERROR\<close>
  otherwise. A record that is inactive and past its date is \<open>INACTIVE\<close>.
\<close>

theorem mapToErrorType_first_match:
  "mapToErrorType Date_parse now None why = INVALID_CODE
   \<and> (ResponseDiscountCode.status c = Inactive \<longrightarrow>
        mapToErrorType Date_parse now (Some c) why = INACTIVE)
   \<and> (ResponseDiscountCode.status c = Expired \<longrightarrow>
        mapToErrorType Date_parse now (Some c) why = EXPIRED)
   \<and> (ResponseDiscountCode.status c = Active
        \<and> (\<exists>text t. ResponseDiscountCode.validUntil c = Some text \<and> text \<noteq> []
                    \<and> Date_parse text = Some t \<and> t < now) \<longrightarrow>
        mapToErrorType Date_parse now (Some c) why = EXPIRED)
   \<and> (ResponseDiscountCode.status c = Active
        \<and> \<not> (\<exists>text t. ResponseDiscountCode.validUntil c = Some text \<and> text \<noteq> []
                      \<and> Date_parse text = Some t \<and> t < now)
        \<and> (\<exists>cap. ResponseDiscountCode.maxUses c = Some cap \<and> cap > 0
                  \<and> ResponseDiscountCode.currentUses c \<ge> cap) \<longrightarrow>
        mapToErrorType Date_parse now (Some c) why = NO_USES_LEFT)
   \<and> (ResponseDiscountCode.status c = Active
        \<and> \<not> (\<exists>text t. ResponseDiscountCode.validUntil c = Some text \<and> text \<noteq> []
                      \<and> Date_parse text = Some t \<and> t < now)
        \<and> \<not> (\<exists>cap. ResponseDiscountCode.maxUses c = Some cap \<and> cap > 0
                    \<and> ResponseDiscountCode.currentUses c \<ge> cap) \<longrightarrow>
        mapToErrorType Date_parse now (Some c) why = UNKNOWN_ERROR)
   \<and> (ResponseDiscountCode.status c = Inactive
        \<and> (\<exists>text t. ResponseDiscountCode.validUntil c = Some text \<and> text \<noteq> []
                    \<and> Date_parse text = Some t \<and> t < now) \<longrightarrow>
        mapToErrorType Date_parse now (Some c) why \<noteq> EXPIRED)"
proof -
  let ?past = "\<exists>text t. ResponseDiscountCode.validUntil c = Some text \<and> text \<noteq> []
                  \<and> Date_parse text = Some t \<and> t < now"
  let ?used_up = "\<exists>cap. ResponseDiscountCode.maxUses c = Some cap \<and> cap > 0
                    \<and> ResponseDiscountCode.currentUses c \<ge> cap"
  have date_test:
    "(case ResponseDiscountCode.validUntil c of
        None \<Rightarrow> False
      | Some text \<Rightarrow>
          text \<noteq> [] \<and>
          (case Date_parse text of None \<Rightarrow> False | Some validUntilDate \<Rightarrow> validUntilDate < now))
     \<longleftrightarrow> ?past"
    by (auto split: option.splits)
  have cap_test:
    "(case ResponseDiscountCode.maxUses c of
        None \<Rightarrow> False
      | Some cap \<Rightarrow> cap > 0 \<and> ResponseDiscountCode.currentUses c \<ge> cap)
     \<longleftrightarrow> ?used_up"
    by (auto split: option.splits)
  have none: "mapToErrorType Date_parse now None why = INVALID_CODE"
    by (simp add: mapToErrorType_def)
  have some: "mapToErrorType Date_parse now (Some c) why =
      (if ResponseDiscountCode.status c = Inactive then INACTIVE
       else if ResponseDiscountCode.status c = Expired then EXPIRED
       else if ?past then EXPIRED
       else if ?used_up then NO_USES_LEFT
       else UNKNOWN_ERROR)"
    unfolding mapToErrorType_def option.case date_test cap_test ..
  show ?thesis
    unfolding some using none by (cases "ResponseDiscountCode.status c") auto
qed

text \<open>
  The record of the tests at the start of 2027, past its date: inactive it is \<open>INACTIVE\<close>,
  active it is \<open>EXPIRED\<close>. At the start of 2026 with 100 uses out of 100 it is
  \<open>NO_USES_LEFT\<close>, and as it stands \<open>UNKNOWN_ERROR\<close>.
\<close>

theorem mapToErrorType_first_match_witness:
  "mapToErrorType Date_parse_iso at_2027
       (Some (verano20_record\<lparr>ResponseDiscountCode.status := Inactive\<rparr>)) ''inactive'' = INACTIVE
   \<and> mapToErrorType Date_parse_iso at_2027 (Some verano20_record) ''expired'' = EXPIRED
   \<and> mapToErrorType Date_parse_iso at_2026
       (Some (verano20_record\<lparr>ResponseDiscountCode.currentUses := 100\<rparr>)) ''used up'' = NO_USES_LEFT
   \<and> mapToErrorType Date_parse_iso at_2026 (Some verano20_record) ''minimum not met'' = UNKNOWN_ERROR"
proof -
  have past: "\<exists>text t. ResponseDiscountCode.validUntil verano20_record = Some text \<and> text \<noteq> []
                \<and> Date_parse_iso text = Some t \<and> t < at_2027"
  proof (intro exI conjI)
    show "ResponseDiscountCode.validUntil verano20_record = Some ''2026-12-31T23:59:59.000Z''"
      by (simp add: verano20_record_def)
    show "''2026-12-31T23:59:59.000Z'' \<noteq> []" by simp
    show "Date_parse_iso ''2026-12-31T23:59:59.000Z'' = Some 1798761599000" by code_simp
    show "(1798761599000 :: int) < at_2027" by (simp add: at_2027_def)
  qed
  have date: "Date_parse_iso ''2026-12-31T23:59:59.000Z'' = Some 1798761599000" by code_simp
  have not_past: "\<not> (\<exists>text t. ResponseDiscountCode.validUntil verano20_record = Some text \<and> text \<noteq> []
                \<and> Date_parse_iso text = Some t \<and> t < at_2026)"
    using date by (auto simp add: verano20_record_def at_2026_def)
  have a: "mapToErrorType Date_parse_iso at_2027
             (Some (verano20_record\<lparr>ResponseDiscountCode.status := Inactive\<rparr>)) ''inactive'' = INACTIVE"
    using mapToErrorType_first_match
            [of Date_parse_iso at_2027 "''inactive''"
                "verano20_record\<lparr>ResponseDiscountCode.status := Inactive\<rparr>"]
    by simp
  have b: "mapToErrorType Date_parse_iso at_2027 (Some verano20_record) ''expired'' = EXPIRED"
    using mapToErrorType_first_match [of Date_parse_iso at_2027 "''expired''" verano20_record] past
    by (simp add: verano20_record_def)
  have c: "mapToErrorType Date_parse_iso at_2026
             (Some (verano20_record\<lparr>ResponseDiscountCode.currentUses := 100\<rparr>)) ''used up''
             = NO_USES_LEFT"
    using mapToErrorType_first_match
            [of Date_parse_iso at_2026 "''used up''"
                "verano20_record\<lparr>ResponseDiscountCode.currentUses := 100\<rparr>"] not_past
    by (simp add: verano20_record_def)
  have d: "mapToErrorType Date_parse_iso at_2026 (Some verano20_record) ''minimum not met''
             = UNKNOWN_ERROR"
    using mapToErrorType_first_match [of Date_parse_iso at_2026 "''minimum not met''" verano20_record]
          not_past
    by (simp add: verano20_record_def)
  show ?thesis using a b c d by simp
qed

text \<open>
  The older version of the classifier keeps the same order; its record has a flag
  \<^verbatim>\<open>isActive\<close> and no status \<^verbatim>\<open>expired\<close>.
\<close>

lemma mapToErrorType_legacy_first_match:
  "mapToErrorType_legacy Date_parse now None = INVALID_CODE
   \<and> (\<not> isActive c \<longrightarrow> mapToErrorType_legacy Date_parse now (Some c) = INACTIVE)
   \<and> (isActive c
        \<and> (\<exists>t. LegacyDiscountCode.validUntil c \<noteq> []
                \<and> Date_parse (LegacyDiscountCode.validUntil c) = Some t \<and> t < now) \<longrightarrow>
        mapToErrorType_legacy Date_parse now (Some c) = EXPIRED)
   \<and> (isActive c
        \<and> \<not> (\<exists>t. LegacyDiscountCode.validUntil c \<noteq> []
                  \<and> Date_parse (LegacyDiscountCode.validUntil c) = Some t \<and> t < now)
        \<and> usageLimit c > 0 \<and> usageCount c \<ge> usageLimit c \<longrightarrow>
        mapToErrorType_legacy Date_parse now (Some c) = NO_USES_LEFT)
   \<and> (isActive c
        \<and> \<not> (\<exists>t. LegacyDiscountCode.validUntil c \<noteq> []
                  \<and> Date_parse (LegacyDiscountCode.validUntil c) = Some t \<and> t < now)
        \<and> \<not> (usageLimit c > 0 \<and> usageCount c \<ge> usageLimit c) \<longrightarrow>
        mapToErrorType_legacy Date_parse now (Some c) = UNKNOWN_ERROR)"
  by (auto simp: mapToErrorType_legacy_def split: option.splits)

text \<open>The classifier never answers \<open>NETWORK_ERROR\<close>.\<close>

lemma mapToErrorType_not_network: "mapToErrorType Date_parse now dc why \<noteq> NETWORK_ERROR"
  by (simp add: mapToErrorType_def split: option.splits)

subsection \<open>The timeout of the validation call\<close>

lemma step_TimerFires_returned: "returned (step Date_parse now c TimerFires) = returned c"
  by simp

lemma step_TimerFires_variables: "variables (step Date_parse now c TimerFires) = variables c"
  by simp

text \<open>
  The result \<^verbatim>\<open>Request timeout\<close> comes from a rejection of \<^verbatim>\<open>graphqlQuery\<close> only, never from
  the timer.
\<close>

lemma timeout_result_from_rejection:
  assumes "returned c = None"
    and "returned (step Date_parse now c ev)
           = Some \<lparr>valid = False, discount = None, calculatedDiscount = None, finalPriceCents = None,
                   message = Some ''Request timeout'', error = Some NETWORK_ERROR\<rparr>"
  shows "\<exists>e. ev = QueryRejected e"
proof (cases ev)
  case TimerFires
  with assms show ?thesis by (simp split: if_splits)
next
  case (QueryFulfilled data)
  with assms have "error (onFulfilled Date_parse now data) = Some NETWORK_ERROR" by simp
  then show ?thesis
    using mapToErrorType_not_network
    by (auto simp add: onFulfilled_def Let_def split: option.splits if_splits)
next
  case (QueryRejected e)
  then show ?thesis by blast
qed

text \<open>
  Claim C1, which the code does not meet. The call \<^verbatim>\<open>validateDiscountCode('summer20', 5000)\<close>
  sends the code \<^verbatim>\<open>SUMMER20\<close>; the backend stays silent and the timer fires. The controller is
  aborted, but its signal was never handed to \<^verbatim>\<open>graphqlQuery\<close>: nothing is cancelled and the
  call is still pending, with no result. When the answer arrives later, it is returned as
  a valid result, not as a timeout.
\<close>

theorem validateDiscountCode_timer_cancels_nothing:
  "variables (validateDiscountCode trim_ascii toUpperCase_ascii ''summer20'' 5000) = (''SUMMER20'', 5000)
   \<and> aborted (step Date_parse_iso at_2026 (validateDiscountCode trim_ascii toUpperCase_ascii ''summer20'' 5000) TimerFires)
   \<and> returned (step Date_parse_iso at_2026 (validateDiscountCode trim_ascii toUpperCase_ascii ''summer20'' 5000) TimerFires) = None
   \<and> returned (step Date_parse_iso at_2026
         (step Date_parse_iso at_2026 (validateDiscountCode trim_ascii toUpperCase_ascii ''summer20'' 5000) TimerFires)
         (QueryFulfilled
            \<lparr>ValidateDiscountResponse.valid = True, reason = ''ok'',
             ValidateDiscountResponse.calculatedDiscount = Some 1000,
             ValidateDiscountResponse.finalPriceCents = Some 4000,
             ValidateDiscountResponse.discountCode = Some verano20_record\<rparr>))
       = Some \<lparr>valid = True, discount = Some verano20, calculatedDiscount = Some 1000,
                finalPriceCents = Some 4000, message = Some ''ok'', error = None\<rparr>"
proof (intro conjI)
  show "variables (validateDiscountCode trim_ascii toUpperCase_ascii ''summer20'' 5000) = (''SUMMER20'', 5000)"
    by code_simp
  show "aborted (step Date_parse_iso at_2026 (validateDiscountCode trim_ascii toUpperCase_ascii ''summer20'' 5000) TimerFires)"
    by (simp add: validateDiscountCode_def)
  show "returned (step Date_parse_iso at_2026 (validateDiscountCode trim_ascii toUpperCase_ascii ''summer20'' 5000) TimerFires) = None"
    by (simp add: validateDiscountCode_def)
  show "returned (step Date_parse_iso at_2026
         (step Date_parse_iso at_2026 (validateDiscountCode trim_ascii toUpperCase_ascii ''summer20'' 5000) TimerFires)
         (QueryFulfilled
            \<lparr>ValidateDiscountResponse.valid = True, reason = ''ok'',
             ValidateDiscountResponse.calculatedDiscount = Some 1000,
             ValidateDiscountResponse.finalPriceCents = Some 4000,
             ValidateDiscountResponse.discountCode = Some verano20_record\<rparr>))
       = Some \<lparr>valid = True, discount = Some verano20, calculatedDiscount = Some 1000,
                finalPriceCents = Some 4000, message = Some ''ok'', error = None\<rparr>"
    by (simp add: validateDiscountCode_def onFulfilled_def verano20_record_def verano20_def)
qed

subsection \<open>Decoding the persisted discount\<close>








end
